theory Spec2Isabelle
  imports Main "HOL-Library.Char_ord" "HOL-Library.List_Lexorder"
begin

section \<open>The migration runner of api-toolkit (package migrator)\<close>

text \<open>
  A shallow embedding of the package \<^verbatim>\<open>migrator\<close>: the runner that loads SQL migration
  files, records applied versions in a tracking table and applies or reverts them under
  an advisory lock.

  The database and the file system are an explicit \<open>world\<close> that every operation takes
  and returns. Each call to the database may fail: the world carries a schedule
  \<open>fails\<close> that says, for the k-th database call of the run, whether it fails, and the
  counter \<open>calls\<close> of the calls made so far. The database clock (\<open>NOW()\<close>) and the
  measured duration of a call are schedules of the same kind. Every database call is
  appended to \<open>trace\<close> together with its success, so that the order of calls can be
  stated. A Go \<^verbatim>\<open>error\<close> is a value of the datatype \<open>error\<close>, a Go \<^verbatim>\<open>panic\<close> is the
  outcome \<open>Panicked\<close>.

  Versions, the lock key and durations are Go \<^verbatim>\<open>int64\<close>/\<^verbatim>\<open>int\<close>; no arithmetic is done
  on them (they are compared and stored), so they are modelled as \<open>int\<close>. The log sink
  \<^verbatim>\<open>Options.Logger\<close> is write-only and is left out, and so is \<^verbatim>\<open>Status\<close>, which only
  formats what \<^verbatim>\<open>loadApplied\<close> and \<^verbatim>\<open>pendingUp\<close> return. Contexts and deadlines are not
  modelled: a call that a deadline cuts short is a call that fails. A script is opaque: it
  is executed or not, and its effect on the database is that it joins the executed scripts.
\<close>

subsection \<open>Data model\<close>

record Migration =
  Version :: int
  Name :: string
  Dir :: string
  File :: string
  SQL :: string
  Checksum :: string

text \<open>A directory entry of a migration source: its name, whether it is a directory, and
  its content (\<open>None\<close> when \<^verbatim>\<open>fs.ReadFile\<close> fails on it). A source (\<^verbatim>\<open>fs.FS\<close>) is the list
  of its entries in the order \<^verbatim>\<open>fs.ReadDir\<close> returns them, or \<open>None\<close> when
  \<^verbatim>\<open>fs.ReadDir\<close> fails.\<close>

record dirent =
  ent_name :: string
  ent_is_dir :: bool
  ent_data :: "string option"

type_synonym fsys = "dirent list option"

record Options =
  MigrationsDir :: string
  MigrationsDirs :: "string list"
  EmbeddedFSs :: "fsys list"
  TableName :: string
  LockKey :: int
  AllowDangerousDown :: bool

record Runner =
  Opts :: Options
  migrations :: "Migration list"
  loaded :: bool

text \<open>A row of the tracking table (\<^verbatim>\<open>appliedRow\<close>; the fields are prefixed with \<open>row\<close>
  because \<open>Version\<close>, \<open>Name\<close> and \<open>Checksum\<close> are fields of \<open>Migration\<close> already).\<close>

record appliedRow =
  rowVersion :: int
  rowName :: string
  rowChecksum :: string
  rowAppliedAt :: int
  rowExecMS :: int
  rowSuccess :: bool

datatype error =
    DownDisabled
  | NoDownMigration int string
  | MigrationFailed int error
  | RevertFailed int error
  | NoRowDeleted int string
  | NoSource
  | ReadDirFailed
  | DuplicateMigration int string
  | ReadFileFailed string
  | DbError nat

datatype panic = ChecksumMismatch int string string

datatype 'a outcome = Returned 'a | Panicked panic

datatype event =
    AdvisoryLock int
  | AdvisoryUnlock int
  | CreateTable string
  | SelectRows string
  | BeginTx
  | TxExec string
  | TxDelete string int
  | TxCommit
  | TxRollback
  | Upsert string int string string int bool

record world =
  disk :: "string \<Rightarrow> fsys"
  tables :: "string \<Rightarrow> appliedRow list option"
  schema :: "string list"
  calls :: nat
  fails :: "nat \<Rightarrow> bool"
  now :: "nat \<Rightarrow> int"
  elapsed :: "nat \<Rightarrow> int"
  trace :: "(event \<times> bool) list"

definition defaultTable :: string where
  "defaultTable = ''schema_migrations''"

definition defaultLock :: int where
  "defaultLock = 913551337114213777"

subsection \<open>Library functions of Go used by the package\<close>

text \<open>\<^verbatim>\<open>sort.Slice\<close> with a \<^verbatim>\<open>less\<close> function. Go does not specify the order of elements
  that compare equal; the model is the insertion sort, which keeps them in their order.
  Where the keys are pairwise distinct the result does not depend on that choice.\<close>

fun insert_slice :: "('a \<Rightarrow> 'a \<Rightarrow> bool) \<Rightarrow> 'a \<Rightarrow> 'a list \<Rightarrow> 'a list" where
  "insert_slice lt x [] = [x]"
| "insert_slice lt x (y # ys) =
     (if lt y x then y # insert_slice lt x ys else x # y # ys)"

definition sort_Slice :: "('a \<Rightarrow> 'a \<Rightarrow> bool) \<Rightarrow> 'a list \<Rightarrow> 'a list" where
  "sort_Slice lt xs = foldr (insert_slice lt) xs []"

text \<open>\<^verbatim>\<open>strings.TrimSpace\<close>: leading and trailing Unicode white space is removed. A Go
  string is a byte sequence, as \<open>string\<close> is here; \<open>white_space\<close> lists the UTF-8
  encodings of the code points with the property White_Space (U+0009 to U+000D, U+0020,
  U+0085, U+00A0, U+1680, U+2000 to U+200A, U+2028, U+2029, U+202F, U+205F, U+3000).\<close>

definition white_space :: "string list" where
  "white_space =
    [[CHR 0x09], [CHR 0x0A], [CHR 0x0B], [CHR 0x0C], [CHR 0x0D], [CHR 0x20],
     [CHR 0xC2, CHR 0x85], [CHR 0xC2, CHR 0xA0], [CHR 0xE1, CHR 0x9A, CHR 0x80],
     [CHR 0xE2, CHR 0x80, CHR 0x80], [CHR 0xE2, CHR 0x80, CHR 0x81],
     [CHR 0xE2, CHR 0x80, CHR 0x82], [CHR 0xE2, CHR 0x80, CHR 0x83],
     [CHR 0xE2, CHR 0x80, CHR 0x84], [CHR 0xE2, CHR 0x80, CHR 0x85],
     [CHR 0xE2, CHR 0x80, CHR 0x86], [CHR 0xE2, CHR 0x80, CHR 0x87],
     [CHR 0xE2, CHR 0x80, CHR 0x88], [CHR 0xE2, CHR 0x80, CHR 0x89],
     [CHR 0xE2, CHR 0x80, CHR 0x8A], [CHR 0xE2, CHR 0x80, CHR 0xA8],
     [CHR 0xE2, CHR 0x80, CHR 0xA9], [CHR 0xE2, CHR 0x80, CHR 0xAF],
     [CHR 0xE2, CHR 0x81, CHR 0x9F], [CHR 0xE3, CHR 0x80, CHR 0x80]]"

definition space_at_front :: "string list \<Rightarrow> string \<Rightarrow> nat" where
  "space_at_front ws s =
     (case find (\<lambda>p. p \<noteq> [] \<and> take (length p) s = p) ws of
        None \<Rightarrow> 0 | Some p \<Rightarrow> length p)"

function trim_front :: "string list \<Rightarrow> string \<Rightarrow> string" where
  "trim_front ws s =
     (if space_at_front ws s = 0 then s else trim_front ws (drop (space_at_front ws s) s))"
  by pat_completeness auto
termination
proof (relation "measure (\<lambda>(ws, s). length s)")
  show "wf (measure (\<lambda>(ws, s). length s))" by simp
next
  fix ws :: "string list" and s :: string
  assume n: "space_at_front ws s \<noteq> 0"
  then obtain p where p: "find (\<lambda>p. p \<noteq> [] \<and> take (length p) s = p) ws = Some p"
    by (auto simp: space_at_front_def split: option.splits)
  then have "p \<noteq> []" "take (length p) s = p"
    by (auto simp: find_Some_iff)
  then have "s \<noteq> []" by auto
  with n show "((ws, drop (space_at_front ws s) s), (ws, s)) \<in> measure (\<lambda>(ws, s). length s)"
    by simp
qed

definition TrimSpace :: "string \<Rightarrow> string" where
  "TrimSpace s = rev (trim_front (map rev white_space) (rev (trim_front white_space s)))"

text \<open>\<^verbatim>\<open>filepath.Base\<close> on a system whose separator is the slash.\<close>

definition Base :: "string \<Rightarrow> string" where
  "Base path =
     (if path = [] then ''.''
      else let p = rev (dropWhile (\<lambda>c. c = CHR ''/'') (rev path));
               q = rev (takeWhile (\<lambda>c. c \<noteq> CHR ''/'') (rev p))
           in if q = [] then ''/'' else q)"

definition is_digit :: "char \<Rightarrow> bool" where
  "is_digit c = (c \<in> set ''0123456789'')"

definition is_name_char :: "char \<Rightarrow> bool" where
  "is_name_char c =
     (c \<in> set ''abcdefghijklmnopqrstuvwxyzABCDEFGHIJKLMNOPQRSTUVWXYZ0123456789_-'')"

text \<open>\<^verbatim>\<open>strconv.ParseInt(s, 10, 64)\<close> on a string of at most 14 decimal digits: the value
  is below \<open>2 ^ 63\<close>, so the call cannot fail.\<close>

definition ParseInt :: "string \<Rightarrow> int" where
  "ParseInt ds = foldl (\<lambda>a c. 10 * a + (int (of_char c) - 48)) 0 ds"

subsection \<open>File names\<close>

text \<open>\<^verbatim>\<open>parseFileName\<close> matches the base name against
  \<^verbatim>\<open>^(\d{8,14})_([a-zA-Z0-9_\-]+)\.(up|down)\.sql$\<close>. The underscore after the version is
  not a digit and the dot after the name is not a name character, so a match takes the
  whole leading run of digits and the whole run of name characters after the
  underscore.\<close>

definition parseFileName :: "string \<Rightarrow> Migration option" where
  "parseFileName name =
     (let b = Base name; ds = takeWhile is_digit b; rest = dropWhile is_digit b
      in if 8 \<le> length ds \<and> length ds \<le> 14 then
           (case rest of
              [] \<Rightarrow> None
            | c # rest' \<Rightarrow>
                if c = CHR ''_'' then
                  (let nm = takeWhile is_name_char rest';
                       suffix = dropWhile is_name_char rest'
                   in if nm \<noteq> [] \<and> (suffix = ''.up.sql'' \<or> suffix = ''.down.sql'') then
                        Some \<lparr>Version = ParseInt ds, Name = nm,
                              Dir = (if suffix = ''.up.sql'' then ''up'' else ''down''),
                              File = name, SQL = [], Checksum = []\<rparr>
                      else None)
                else None)
         else None)"

subsection \<open>Construction\<close>

text \<open>\<^verbatim>\<open>New(db, opts)\<close>; the database handle is the world, which is passed to every
  operation.\<close>

definition New :: "Options \<Rightarrow> Runner" where
  "New opts =
     (let o1 = (if TableName opts = [] then opts\<lparr>TableName := defaultTable\<rparr> else opts);
          o2 = (if LockKey o1 = 0 then o1\<lparr>LockKey := defaultLock\<rparr> else o1)
      in \<lparr>Opts = o2, migrations = [], loaded = False\<rparr>)"

subsection \<open>Database calls\<close>

text \<open>One call to the database: it succeeds when the statement can succeed in the
  current state (\<open>possible\<close>: the table it names exists) and the schedule does not make
  it fail. The error of the k-th call is \<open>DbError k\<close>.\<close>

definition db_call :: "event \<Rightarrow> bool \<Rightarrow> world \<Rightarrow> error option \<times> world" where
  "db_call ev possible w =
     (let k = calls w; ok = (possible \<and> \<not> fails w k)
      in (if ok then None else Some (DbError k),
          w\<lparr>calls := Suc k, trace := trace w @ [(ev, ok)]\<rparr>))"

definition rows_of :: "world \<Rightarrow> string \<Rightarrow> appliedRow list" where
  "rows_of w tn = (case tables w tn of None \<Rightarrow> [] | Some rows \<Rightarrow> rows)"

definition ensureTable :: "Runner \<Rightarrow> world \<Rightarrow> error option \<times> world" where
  "ensureTable r w =
     (let tn = TableName (Opts r)
      in case db_call (CreateTable tn) True w of
           (Some e, w1) \<Rightarrow> (Some e, w1)
         | (None, w1) \<Rightarrow>
             (None, if tables w1 tn = None then w1\<lparr>tables := (tables w1)(tn \<mapsto> [])\<rparr>
                    else w1))"

text \<open>\<^verbatim>\<open>ORDER BY applied_at ASC, version ASC\<close>.\<close>

definition row_less :: "appliedRow \<Rightarrow> appliedRow \<Rightarrow> bool" where
  "row_less a b =
     (rowAppliedAt a < rowAppliedAt b \<or>
      (rowAppliedAt a = rowAppliedAt b \<and> rowVersion a < rowVersion b))"

text \<open>\<^verbatim>\<open>loadApplied\<close>: an error of the query and an error met while the rows are read
  (\<^verbatim>\<open>rows.Err()\<close>) both make the function return an error, and are one failure here.\<close>

definition loadApplied :: "Runner \<Rightarrow> world \<Rightarrow> (error + appliedRow list) \<times> world" where
  "loadApplied r w =
     (let tn = TableName (Opts r)
      in case db_call (SelectRows tn) (tables w tn \<noteq> None) w of
           (Some e, w1) \<Rightarrow> (Inl e, w1)
         | (None, w1) \<Rightarrow> (Inr (sort_Slice row_less (rows_of w tn)), w1))"

definition loadAppliedSuccess :: "Runner \<Rightarrow> world \<Rightarrow> (error + appliedRow list) \<times> world" where
  "loadAppliedSuccess r w =
     (case loadApplied r w of
        (Inl e, w1) \<Rightarrow> (Inl e, w1)
      | (Inr rows, w1) \<Rightarrow> (Inr (filter rowSuccess rows), w1))"

text \<open>The upsert of \<^verbatim>\<open>record\<close>: \<^verbatim>\<open>INSERT ... ON CONFLICT (version) DO UPDATE\<close>.\<close>

definition upsert :: "appliedRow \<Rightarrow> appliedRow list \<Rightarrow> appliedRow list" where
  "upsert a rows =
     (if rowVersion a \<in> set (map rowVersion rows)
      then map (\<lambda>b. if rowVersion b = rowVersion a then a else b) rows
      else rows @ [a])"

text \<open>\<^verbatim>\<open>record\<close> (a keyword of Isabelle, hence the name \<open>record_row\<close>).\<close>

definition record_row :: "Runner \<Rightarrow> Migration \<Rightarrow> int \<Rightarrow> bool \<Rightarrow> world \<Rightarrow> error option \<times> world" where
  "record_row r m execMS ok w =
     (let tn = TableName (Opts r); k = calls w
      in case db_call (Upsert tn (Version m) (Name m) (Checksum m) execMS ok)
                (tables w tn \<noteq> None) w of
           (Some e, w1) \<Rightarrow> (Some e, w1)
         | (None, w1) \<Rightarrow>
             (None, w1\<lparr>tables := (tables w1)(tn \<mapsto>
                upsert \<lparr>rowVersion = Version m, rowName = Name m, rowChecksum = Checksum m,
                        rowAppliedAt = now w k, rowExecMS = execMS, rowSuccess = ok\<rparr>
                  (rows_of w1 tn))\<rparr>))"

subsection \<open>Pending migrations\<close>

definition appliedSet :: "appliedRow list \<Rightarrow> (int \<rightharpoonup> appliedRow)" where
  "appliedSet applied =
     foldl (\<lambda>s a. if rowSuccess a then s(rowVersion a \<mapsto> a) else s) Map.empty applied"

fun pendingLoop ::
  "(int \<rightharpoonup> appliedRow) \<Rightarrow> Migration list \<Rightarrow> Migration list \<Rightarrow> panic + Migration list" where
  "pendingLoop s [] pending = Inr pending"
| "pendingLoop s (m # ms) pending =
     (if Dir m \<noteq> ''up'' then pendingLoop s ms pending
      else case s (Version m) of
             Some a \<Rightarrow>
               if rowChecksum a \<noteq> Checksum m
               then Inl (ChecksumMismatch (Version m) (rowChecksum a) (Checksum m))
               else pendingLoop s ms pending
           | None \<Rightarrow> pendingLoop s ms (pending @ [m]))"

definition pendingUp :: "Runner \<Rightarrow> appliedRow list \<Rightarrow> panic + Migration list" where
  "pendingUp r applied =
     (case pendingLoop (appliedSet applied) (migrations r) [] of
        Inl p \<Rightarrow> Inl p
      | Inr pending \<Rightarrow> Inr (sort_Slice (\<lambda>m n. Version m < Version n) pending))"

subsection \<open>Applying and reverting one migration\<close>

text \<open>A transaction collects its statements and takes effect when it is committed: the
  script joins \<open>schema\<close> (the scripts whose transaction was committed, in that order), the
  deleted row leaves the table. A transaction that is rolled back, or whose commit fails,
  changes nothing. The errors of \<^verbatim>\<open>tx.Rollback()\<close> and of \<^verbatim>\<open>record\<close> on the failure paths
  are assigned to \<^verbatim>\<open>_\<close> in the source: \<open>snd\<close> drops them here.\<close>

definition applyOne :: "Runner \<Rightarrow> Migration \<Rightarrow> world \<Rightarrow> error option \<times> world" where
  "applyOne r m w =
     (case db_call BeginTx True w of
        (Some e, w1) \<Rightarrow> (Some e, w1)
      | (None, w1) \<Rightarrow>
          (let execMS = elapsed w1 (calls w1)
           in case db_call (TxExec (SQL m)) True w1 of
                (Some e, w2) \<Rightarrow>
                  (let w3 = snd (db_call TxRollback True w2);
                       w4 = snd (record_row r m execMS False w3)
                   in (Some (MigrationFailed (Version m) e), w4))
              | (None, w2) \<Rightarrow>
                  (case db_call TxCommit True w2 of
                     (Some e, w3) \<Rightarrow> (Some e, snd (record_row r m execMS False w3))
                   | (None, w3) \<Rightarrow>
                       record_row r m execMS True (w3\<lparr>schema := schema w3 @ [SQL m]\<rparr>))))"

text \<open>The loop \<^verbatim>\<open>for _, m := range pending\<close> of \<^verbatim>\<open>Up\<close>.\<close>

fun applyAll :: "Runner \<Rightarrow> Migration list \<Rightarrow> world \<Rightarrow> error option \<times> world" where
  "applyAll r [] w = (None, w)"
| "applyAll r (m # ms) w =
     (case applyOne r m w of
        (Some e, w1) \<Rightarrow> (Some e, w1)
      | (None, w1) \<Rightarrow> applyAll r ms w1)"

definition revertOne :: "Runner \<Rightarrow> Migration \<Rightarrow> world \<Rightarrow> error option \<times> world" where
  "revertOne r m w =
     (let tn = TableName (Opts r)
      in case db_call BeginTx True w of
           (Some e, w1) \<Rightarrow> (Some e, w1)
         | (None, w1) \<Rightarrow>
             (case (if TrimSpace (SQL m) \<noteq> [] then db_call (TxExec (SQL m)) True w1
                    else (None, w1)) of
                (Some e, w2) \<Rightarrow>
                  (Some (RevertFailed (Version m) e), snd (db_call TxRollback True w2))
              | (None, w2) \<Rightarrow>
                  (case db_call (TxDelete tn (Version m)) (tables w2 tn \<noteq> None) w2 of
                     (Some e, w3) \<Rightarrow> (Some e, snd (db_call TxRollback True w3))
                   | (None, w3) \<Rightarrow>
                       (let aff = length (filter (\<lambda>a. rowVersion a = Version m) (rows_of w3 tn))
                        in if aff \<noteq> 1 then
                             (Some (NoRowDeleted (Version m) tn),
                              snd (db_call TxRollback True w3))
                           else
                             (case db_call TxCommit True w3 of
                                (Some e, w4) \<Rightarrow> (Some e, w4)
                              | (None, w4) \<Rightarrow>
                                  (None, w4\<lparr>tables := (tables w4)(tn \<mapsto>
                                             filter (\<lambda>a. rowVersion a \<noteq> Version m) (rows_of w4 tn)),
                                           schema := (if TrimSpace (SQL m) \<noteq> []
                                                      then schema w4 @ [SQL m]
                                                      else schema w4)\<rparr>))))))"

subsection \<open>The advisory lock\<close>

text \<open>\<^verbatim>\<open>withLock\<close>: the unlock is deferred, so it runs when the protected function returns
  and when it panics, and its error is dropped.\<close>

definition withLock ::
  "Runner \<Rightarrow> (Runner \<Rightarrow> world \<Rightarrow> (error option) outcome \<times> Runner \<times> world) \<Rightarrow> world
     \<Rightarrow> (error option) outcome \<times> Runner \<times> world" where
  "withLock r fn w =
     (case db_call (AdvisoryLock (LockKey (Opts r))) True w of
        (Some e, w1) \<Rightarrow> (Returned (Some e), r, w1)
      | (None, w1) \<Rightarrow>
          (case fn r w1 of
             (res, r2, w2) \<Rightarrow>
               (res, r2, snd (db_call (AdvisoryUnlock (LockKey (Opts r))) True w2))))"

subsection \<open>Loading the migrations\<close>

text \<open>The directories without the empty path and without repetitions, in order.\<close>

fun uniqDirs :: "string list \<Rightarrow> string list \<Rightarrow> string list" where
  "uniqDirs seen [] = []"
| "uniqDirs seen (d # ds) =
     (if d = [] then uniqDirs seen ds
      else if d \<in> set seen then uniqDirs seen ds
      else d # uniqDirs (d # seen) ds)"

text \<open>The files of all roots; the first root that cannot be read ends the load.\<close>

fun readRoots :: "fsys list \<Rightarrow> error + dirent list" where
  "readRoots [] = Inr []"
| "readRoots (root # roots) =
     (case root of
        None \<Rightarrow> Inl ReadDirFailed
      | Some ents \<Rightarrow>
          (case readRoots roots of
             Inl e \<Rightarrow> Inl e
           | Inr files \<Rightarrow> Inr (filter (\<lambda>e. \<not> ent_is_dir e) ents @ files)))"

text \<open>The loop that parses and collects. The source keys its map \<^verbatim>\<open>seenMig\<close> with the
  string \<^verbatim>\<open>"%d:%s"\<close> of version and direction, which is one-to-one on these pairs; the
  model keeps the pairs. The migrations collected so far stay in the runner when the
  loop ends with an error, as the source appends to \<^verbatim>\<open>r.migrations\<close> in place.
  \<open>checksum\<close> is the source's function of that name, the hexadecimal SHA-256 digest; it
  is a parameter of the model.\<close>

fun collect ::
  "(string \<Rightarrow> string) \<Rightarrow> dirent list \<Rightarrow> (int \<times> string) list \<Rightarrow> Migration list
     \<Rightarrow> error option \<times> Migration list" where
  "collect checksum [] seenMig ms = (None, ms)"
| "collect checksum (fr # frs) seenMig ms =
     (case parseFileName (ent_name fr) of
        None \<Rightarrow> collect checksum frs seenMig ms
      | Some m \<Rightarrow>
          if (Version m, Dir m) \<in> set seenMig
          then (Some (DuplicateMigration (Version m) (Dir m)), ms)
          else (case ent_data fr of
                  None \<Rightarrow> (Some (ReadFileFailed (ent_name fr)), ms)
                | Some b \<Rightarrow>
                    (let sql = TrimSpace b
                     in collect checksum frs ((Version m, Dir m) # seenMig)
                          (ms @ [m\<lparr>SQL := sql, Checksum := checksum sql\<rparr>]))))"

definition mig_less :: "Migration \<Rightarrow> Migration \<Rightarrow> bool" where
  "mig_less m n = (if Version m = Version n then Dir m < Dir n else Version m < Version n)"

definition roots_of :: "Runner \<Rightarrow> world \<Rightarrow> fsys list" where
  "roots_of r w =
     map (disk w)
       (uniqDirs [] ((if MigrationsDir (Opts r) \<noteq> [] then [MigrationsDir (Opts r)] else [])
                     @ MigrationsDirs (Opts r)))
     @ EmbeddedFSs (Opts r)"

definition loadMigrations :: "(string \<Rightarrow> string) \<Rightarrow> Runner \<Rightarrow> world \<Rightarrow> error option \<times> Runner" where
  "loadMigrations checksum r w =
     (if loaded r then (None, r)
      else if roots_of r w = [] then (Some NoSource, r)
      else case readRoots (roots_of r w) of
             Inl e \<Rightarrow> (Some e, r)
           | Inr files \<Rightarrow>
               (case collect checksum files [] (migrations r) of
                  (Some e, ms) \<Rightarrow> (Some e, r\<lparr>migrations := ms\<rparr>)
                | (None, ms) \<Rightarrow>
                    (None, r\<lparr>migrations := sort_Slice mig_less ms, loaded := True\<rparr>)))"

text \<open>\<^verbatim>\<open>find\<close> (the name \<open>find\<close> is the list function used here).\<close>

definition find_migration :: "Runner \<Rightarrow> int \<Rightarrow> string \<Rightarrow> Migration option" where
  "find_migration r version dir =
     find (\<lambda>m. Version m = version \<and> Dir m = dir) (migrations r)"

subsection \<open>Up and Down\<close>

text \<open>\<open>Up_locked\<close> and \<open>Down_locked\<close> are the function literals that \<^verbatim>\<open>Up\<close> and \<^verbatim>\<open>Down\<close> pass
  to \<^verbatim>\<open>withLock\<close>. A panic of \<^verbatim>\<open>pendingUp\<close> ends \<^verbatim>\<open>Up\<close> with the outcome \<open>Panicked\<close>.\<close>

definition Up_locked ::
  "(string \<Rightarrow> string) \<Rightarrow> Runner \<Rightarrow> world \<Rightarrow> (error option) outcome \<times> Runner \<times> world" where
  "Up_locked checksum r w =
     (case ensureTable r w of
        (Some e, w1) \<Rightarrow> (Returned (Some e), r, w1)
      | (None, w1) \<Rightarrow>
          (case loadMigrations checksum r w1 of
             (Some e, r1) \<Rightarrow> (Returned (Some e), r1, w1)
           | (None, r1) \<Rightarrow>
               (case loadApplied r1 w1 of
                  (Inl e, w2) \<Rightarrow> (Returned (Some e), r1, w2)
                | (Inr applied, w2) \<Rightarrow>
                    (case pendingUp r1 applied of
                       Inl p \<Rightarrow> (Panicked p, r1, w2)
                     | Inr pending \<Rightarrow>
                         if pending = [] then (Returned None, r1, w2)
                         else (case applyAll r1 pending w2 of
                                 (res, w3) \<Rightarrow> (Returned res, r1, w3))))))"

definition Up ::
  "(string \<Rightarrow> string) \<Rightarrow> Runner \<Rightarrow> world \<Rightarrow> (error option) outcome \<times> Runner \<times> world" where
  "Up checksum r w = withLock r (Up_locked checksum) w"

definition Down_locked ::
  "(string \<Rightarrow> string) \<Rightarrow> Runner \<Rightarrow> world \<Rightarrow> (error option) outcome \<times> Runner \<times> world" where
  "Down_locked checksum r w =
     (case ensureTable r w of
        (Some e, w1) \<Rightarrow> (Returned (Some e), r, w1)
      | (None, w1) \<Rightarrow>
          (case loadMigrations checksum r w1 of
             (Some e, r1) \<Rightarrow> (Returned (Some e), r1, w1)
           | (None, r1) \<Rightarrow>
               (case loadAppliedSuccess r1 w1 of
                  (Inl e, w2) \<Rightarrow> (Returned (Some e), r1, w2)
                | (Inr appliedOK, w2) \<Rightarrow>
                    if appliedOK = [] then (Returned None, r1, w2)
                    else (let latest = last appliedOK
                          in case find_migration r1 (rowVersion latest) ''down'' of
                               None \<Rightarrow>
                                 (Returned (Some (NoDownMigration (rowVersion latest)
                                                    (rowName latest))), r1, w2)
                             | Some down \<Rightarrow>
                                 (case revertOne r1 down w2 of
                                    (res, w3) \<Rightarrow> (Returned res, r1, w3))))))"

definition Down ::
  "(string \<Rightarrow> string) \<Rightarrow> Runner \<Rightarrow> world \<Rightarrow> (error option) outcome \<times> Runner \<times> world" where
  "Down checksum r w =
     (if \<not> AllowDangerousDown (Opts r) then (Returned (Some DownDisabled), r, w)
      else withLock r (Down_locked checksum) w)"

subsection \<open>Invariants\<close>

text \<open>The registry of a runner made by \<open>New\<close> is empty until it is loaded; a loaded
  registry holds one migration for a version and direction.\<close>

definition mig_key :: "Migration \<Rightarrow> int \<times> string" where
  "mig_key m = (Version m, Dir m)"

definition registry_ok :: "Runner \<Rightarrow> bool" where
  "registry_ok r =
     (if loaded r then distinct (map mig_key (migrations r)) else migrations r = [])"

text \<open>The version and direction of every file whose name is a migration's.\<close>

definition file_keys :: "dirent list \<Rightarrow> (int \<times> string) list" where
  "file_keys files = map mig_key (List.map_filter (\<lambda>f. parseFileName (ent_name f)) files)"

text \<open>The world after the deferred unlock of \<open>withLock\<close>.\<close>

definition unlocked :: "Runner \<Rightarrow> world \<Rightarrow> world" where
  "unlocked r w = snd (db_call (AdvisoryUnlock (LockKey (Opts r))) True w)"

text \<open>The world when lock, table creation and the query of the applied rows are done.\<close>

definition prelude :: "Runner \<Rightarrow> world \<Rightarrow> world" where
  "prelude r w =
     snd (loadApplied r
       (snd (ensureTable r (snd (db_call (AdvisoryLock (LockKey (Opts r))) True w)))))"

text \<open>The table holds a \<open>success = true\<close> row of the migration's version with the
  migration's checksum.\<close>

definition has_record :: "appliedRow list \<Rightarrow> Migration \<Rightarrow> bool" where
  "has_record rows m =
     (\<exists>a\<in>set rows. rowVersion a = Version m \<and> rowSuccess a \<and> rowChecksum a = Checksum m)"

text \<open>Whether a call returned an error to its caller.\<close>

fun returns_error :: "(error option) outcome \<Rightarrow> bool" where
  "returns_error (Returned (Some e)) = True"
| "returns_error (Returned None) = False"
| "returns_error (Panicked p) = False"

subsection \<open>Example inputs\<close>

text \<open>The examples use the identity in the place of the SHA-256 digest: like the digest, it
  gives different scripts different checksums.\<close>

definition ex_checksum :: "string \<Rightarrow> string" where
  "ex_checksum s = s"

definition ex_file :: "string \<Rightarrow> string \<Rightarrow> dirent" where
  "ex_file name content = \<lparr>ent_name = name, ent_is_dir = False, ent_data = Some content\<rparr>"

definition ex_disk :: "string \<Rightarrow> fsys" where
  "ex_disk d =
     (if d = ''migrations'' then
        Some [ex_file ''20240101_init.down.sql'' ''DROP TABLE a;'',
              ex_file ''20240101_init.up.sql'' ''CREATE TABLE a();'',
              ex_file ''20240102_more.down.sql'' ''DROP TABLE b;'',
              ex_file ''20240102_more.up.sql'' ''CREATE TABLE b();'']
      else if d = ''extra'' then
        Some [ex_file ''20240101_again.up.sql'' ''CREATE TABLE c();'']
      else None)"

definition ex_opts :: Options where
  "ex_opts = \<lparr>MigrationsDir = ''migrations'', MigrationsDirs = [], EmbeddedFSs = [],
              TableName = [], LockKey = 0, AllowDangerousDown = True\<rparr>"

definition ex_world :: world where
  "ex_world = \<lparr>disk = ex_disk, tables = (\<lambda>tn. None), schema = [], calls = 0,
               fails = (\<lambda>k. False), now = (\<lambda>k. int k), elapsed = (\<lambda>k. 7), trace = []\<rparr>"

definition ex_edited_disk :: "string \<Rightarrow> fsys" where
  "ex_edited_disk d =
     (if d = ''migrations'' then
        Some [ex_file ''20240101_init.down.sql'' ''DROP TABLE a;'',
              ex_file ''20240101_init.up.sql'' ''CREATE TABLE a(id int);'',
              ex_file ''20240102_more.down.sql'' ''DROP TABLE b;'',
              ex_file ''20240102_more.up.sql'' ''CREATE TABLE b();'']
      else None)"

definition ex_early_disk :: "string \<Rightarrow> fsys" where
  "ex_early_disk d =
     (if d = ''migrations'' then
        Some [ex_file ''20240102_more.down.sql'' ''DROP TABLE b;'',
              ex_file ''20240102_more.up.sql'' ''CREATE TABLE b();'']
      else None)"

text \<open>Three pending up scripts, and a database whose ninth call fails: the execution of
  the second script.\<close>

definition ex_three_disk :: "string \<Rightarrow> fsys" where
  "ex_three_disk d =
     (if d = ''migrations'' then
        Some [ex_file ''20240101_init.up.sql'' ''CREATE TABLE a();'',
              ex_file ''20240102_more.up.sql'' ''CREATE TABLE b();'',
              ex_file ''20240103_last.up.sql'' ''CREATE TABLE c();'']
      else None)"

definition ex_second_fails_world :: world where
  "ex_second_fails_world = ex_world\<lparr>disk := ex_three_disk, fails := (\<lambda>k. k = 8)\<rparr>"


text \<open>A database whose ninth and eleventh calls fail: the execution of the second script
  and the write of its failure record.\<close>

definition ex_second_unrecorded_world :: world where
  "ex_second_unrecorded_world =
     ex_world\<lparr>disk := ex_three_disk, fails := (\<lambda>k. k = 8 \<or> k = 10)\<rparr>"




text \<open>A load that fails and is tried again by the same runner. At first the directories
  \<open>migrations\<close> and \<open>extra\<close> both hold an up script of version 20240101, so the load ends
  with the duplicate error. Then the file in \<open>extra\<close> is removed and the script in
  \<open>migrations\<close> is edited. \<open>ex_retry_runner\<close> and \<open>ex_retry_world\<close> are the runner and the
  world that the failed \<open>Up\<close> left, with the disk as it is after the repair.\<close>

definition ex_broken_disk :: "string \<Rightarrow> fsys" where
  "ex_broken_disk d =
     (if d = ''migrations'' then
        Some [ex_file ''20240101_init.up.sql'' ''CREATE TABLE IF NOT EXISTS a();'']
      else if d = ''extra'' then
        Some [ex_file ''20240101_again.up.sql'' ''CREATE TABLE IF NOT EXISTS c();'']
      else None)"

definition ex_repaired_disk :: "string \<Rightarrow> fsys" where
  "ex_repaired_disk d =
     (if d = ''migrations'' then
        Some [ex_file ''20240101_init.up.sql'' ''CREATE TABLE IF NOT EXISTS a(id int);'']
      else if d = ''extra'' then Some []
      else None)"

definition ex_retry_runner :: Runner where
  "ex_retry_runner =
     fst (snd (Up ex_checksum (New (ex_opts\<lparr>MigrationsDirs := [''extra'']\<rparr>))
                 (ex_world\<lparr>disk := ex_broken_disk\<rparr>)))"

definition ex_retry_world :: world where
  "ex_retry_world =
     (snd (snd (Up ex_checksum (New (ex_opts\<lparr>MigrationsDirs := [''extra'']\<rparr>))
                  (ex_world\<lparr>disk := ex_broken_disk\<rparr>))))\<lparr>disk := ex_repaired_disk\<rparr>"

text \<open>The database after \<^verbatim>\<open>Up\<close> applied both versions, with the script of version
  20240101 edited on disk afterwards.\<close>

definition ex_drift_world :: world where
  "ex_drift_world = (snd (snd (Up ex_checksum (New ex_opts) ex_world)))\<lparr>disk := ex_edited_disk\<rparr>"

text \<open>The database after two runs of \<^verbatim>\<open>Up\<close>, each by a new process: the first while
  only version 20240102 was on disk, the second once version 20240101 had been added.\<close>

definition ex_late_world :: world where
  "ex_late_world =
     snd (snd (Up ex_checksum (New ex_opts)
       ((snd (snd (Up ex_checksum (New ex_opts) (ex_world\<lparr>disk := ex_early_disk\<rparr>))))\<lparr>disk := ex_disk\<rparr>)))"

section \<open>Properties\<close>

subsection \<open>Database calls and the steps before the work\<close>

lemma db_call_fields [simp]:
  "disk (snd (db_call ev p w)) = disk w"
  "tables (snd (db_call ev p w)) = tables w"
  "schema (snd (db_call ev p w)) = schema w"
  "fails (snd (db_call ev p w)) = fails w"
  "now (snd (db_call ev p w)) = now w"
  "elapsed (snd (db_call ev p w)) = elapsed w"
  "calls (snd (db_call ev p w)) = Suc (calls w)"
  "trace (snd (db_call ev p w)) = trace w @ [(ev, p \<and> \<not> fails w (calls w))]"
  by (simp_all add: db_call_def Let_def)

lemma db_call_fst [simp]:
  "fst (db_call ev p w) = (if p \<and> \<not> fails w (calls w) then None else Some (DbError (calls w)))"
  by (simp add: db_call_def Let_def)

lemma rows_of_db_call [simp]: "rows_of (snd (db_call ev p w)) tn = rows_of w tn"
  by (simp add: rows_of_def)

lemma loadMigrations_disk:
  "disk w' = disk w \<Longrightarrow> loadMigrations checksum r w' = loadMigrations checksum r w"
  by (simp add: loadMigrations_def roots_of_def)

lemma loadMigrations_Opts [simp]: "Opts (snd (loadMigrations checksum r w)) = Opts r"
  by (simp add: loadMigrations_def Let_def split: sum.splits prod.splits option.splits)

lemma ensureTable_fst [simp]:
  "fst (ensureTable r w) = (if fails w (calls w) then Some (DbError (calls w)) else None)"
  by (simp add: ensureTable_def Let_def db_call_def)

lemma ensureTable_fields [simp]:
  "disk (snd (ensureTable r w)) = disk w"
  "schema (snd (ensureTable r w)) = schema w"
  "fails (snd (ensureTable r w)) = fails w"
  "now (snd (ensureTable r w)) = now w"
  "elapsed (snd (ensureTable r w)) = elapsed w"
  "calls (snd (ensureTable r w)) = Suc (calls w)"
  "trace (snd (ensureTable r w)) =
     trace w @ [(CreateTable (TableName (Opts r)), \<not> fails w (calls w))]"
  by (simp_all add: ensureTable_def Let_def db_call_def)

lemma ensureTable_rows [simp]: "rows_of (snd (ensureTable r w)) tn = rows_of w tn"
  by (simp add: ensureTable_def Let_def db_call_def rows_of_def)

lemma ensureTable_exists:
  "\<not> fails w (calls w) \<Longrightarrow> tables (snd (ensureTable r w)) (TableName (Opts r)) \<noteq> None"
  by (simp add: ensureTable_def Let_def db_call_def)

lemma loadApplied_fst:
  "fst (loadApplied r w) =
     (if tables w (TableName (Opts r)) \<noteq> None \<and> \<not> fails w (calls w)
      then Inr (sort_Slice row_less (rows_of w (TableName (Opts r))))
      else Inl (DbError (calls w)))"
  by (simp add: loadApplied_def Let_def db_call_def)

lemma loadApplied_snd:
  "snd (loadApplied r w) =
     snd (db_call (SelectRows (TableName (Opts r))) (tables w (TableName (Opts r)) \<noteq> None) w)"
  by (simp add: loadApplied_def Let_def split: prod.splits option.splits)

lemma loadAppliedSuccess_fst:
  "fst (loadAppliedSuccess r w) =
     (case fst (loadApplied r w) of Inl e \<Rightarrow> Inl e | Inr rows \<Rightarrow> Inr (filter rowSuccess rows))"
  by (simp add: loadAppliedSuccess_def split: prod.splits sum.splits)

lemma loadAppliedSuccess_snd: "snd (loadAppliedSuccess r w) = snd (loadApplied r w)"
  by (simp add: loadAppliedSuccess_def split: prod.splits sum.splits)

lemma set_insert_slice [simp]: "set (insert_slice lt x xs) = insert x (set xs)"
  by (induction xs) auto

lemma set_sort_Slice [simp]: "set (sort_Slice lt xs) = set xs"
  by (induction xs) (auto simp: sort_Slice_def)

lemma unlocked_fields [simp]:
  "tables (unlocked r w) = tables w"
  "schema (unlocked r w) = schema w"
  "disk (unlocked r w) = disk w"
  "fails (unlocked r w) = fails w"
  "calls (unlocked r w) = Suc (calls w)"
  "rows_of (unlocked r w) tn = rows_of w tn"
  "trace (unlocked r w) =
     trace w @ [(AdvisoryUnlock (LockKey (Opts r)), \<not> fails w (calls w))]"
  by (simp_all add: unlocked_def)

text \<open>When the lock, the table creation and the query succeed, the prelude changes the
  world as follows.\<close>

lemma prelude_fields:
  assumes "\<not> fails w (calls w)" "\<not> fails w (Suc (calls w))"
  shows "schema (prelude r w) = schema w"
    and "disk (prelude r w) = disk w"
    and "fails (prelude r w) = fails w"
    and "now (prelude r w) = now w"
    and "elapsed (prelude r w) = elapsed w"
    and "calls (prelude r w) = Suc (Suc (Suc (calls w)))"
    and "rows_of (prelude r w) tn = rows_of w tn"
    and "tables (prelude r w) (TableName (Opts r)) \<noteq> None"
    and "trace (prelude r w) =
           trace w @ [(AdvisoryLock (LockKey (Opts r)), True),
                      (CreateTable (TableName (Opts r)), True),
                      (SelectRows (TableName (Opts r)), \<not> fails w (Suc (Suc (calls w))))]"
  using assms by (simp_all add: prelude_def loadApplied_snd ensureTable_exists)

subsection \<open>Construction\<close>

text \<open>
  Claim C9. A runner made by \<open>New\<close> has the default table name \<open>schema_migrations\<close> where
  the configured name is empty, and the default lock key 913551337114213777 where the
  configured key is 0; so the table name of a new runner is never empty and its lock key
  is never 0.
\<close>

theorem New_defaults:
  "TableName (Opts (New opts)) = (if TableName opts = [] then defaultTable else TableName opts) \<and>
   LockKey (Opts (New opts)) = (if LockKey opts = 0 then defaultLock else LockKey opts) \<and>
   TableName (Opts (New opts)) \<noteq> [] \<and> LockKey (Opts (New opts)) \<noteq> 0 \<and>
   defaultTable = ''schema_migrations'' \<and> defaultLock = 913551337114213777"
  by (simp add: New_def Let_def defaultTable_def defaultLock_def)

theorem New_defaults_witness:
  "TableName ex_opts = [] \<and> LockKey ex_opts = 0 \<and>
   TableName (Opts (New ex_opts)) = ''schema_migrations'' \<and>
   LockKey (Opts (New ex_opts)) = 913551337114213777"
  using New_defaults [of ex_opts] by (simp add: ex_opts_def)

subsection \<open>Down while reverting is disabled\<close>

text \<open>
  Claim C6. While \<open>AllowDangerousDown\<close> is false, \<open>Down\<close> returns the fixed error
  \<open>DownDisabled\<close> at once; the runner and the world are unchanged: no database call is
  made, so no lock is taken, no table is created and no row changes.
\<close>

theorem Down_disabled:
  "\<not> AllowDangerousDown (Opts r) \<Longrightarrow> Down checksum r w = (Returned (Some DownDisabled), r, w)"
  by (simp add: Down_def)

theorem Down_disabled_witness:
  "Down ex_checksum (New (ex_opts\<lparr>AllowDangerousDown := False\<rparr>)) ex_world =
     (Returned (Some DownDisabled), New (ex_opts\<lparr>AllowDangerousDown := False\<rparr>), ex_world)"
  by (rule Down_disabled) (simp add: New_def Let_def ex_opts_def)

subsection \<open>Down with nothing to revert\<close>

text \<open>
  Claim C10. When reverting is enabled and the lock, the table creation, the load of the
  migrations and the query of the applied rows succeed, and no row of the tracking table
  has \<open>success = true\<close>, then \<open>Down\<close> returns nil. The rows and the executed scripts are as
  before, and the only database calls are lock, create table, select and unlock: no
  transaction is begun, no script is executed and no row is deleted.
\<close>

theorem Down_nothing_to_revert:
  assumes en: "AllowDangerousDown (Opts r)"
    and ok: "\<not> fails w (calls w)" "\<not> fails w (Suc (calls w))"
            "\<not> fails w (Suc (Suc (calls w)))"
    and ld: "fst (loadMigrations checksum r w) = None"
    and none: "filter rowSuccess (rows_of w (TableName (Opts r))) = []"
  shows "fst (Down checksum r w) = Returned None \<and>
         rows_of (snd (snd (Down checksum r w))) (TableName (Opts r))
           = rows_of w (TableName (Opts r)) \<and>
         schema (snd (snd (Down checksum r w))) = schema w \<and>
         trace (snd (snd (Down checksum r w))) =
           trace w @ [(AdvisoryLock (LockKey (Opts r)), True),
                      (CreateTable (TableName (Opts r)), True),
                      (SelectRows (TableName (Opts r)), True),
                      (AdvisoryUnlock (LockKey (Opts r)),
                         \<not> fails w (Suc (Suc (Suc (calls w)))))]"
proof -
  let ?w1 = "snd (db_call (AdvisoryLock (LockKey (Opts r))) True w)"
  let ?w2 = "snd (ensureTable r ?w1)"
  let ?r1 = "snd (loadMigrations checksum r ?w2)"
  have l3: "fst (loadMigrations checksum r ?w2) = None"
    using ld by (simp add: loadMigrations_disk [of ?w2 w])
  have ex: "tables ?w2 (TableName (Opts r)) \<noteq> None"
    using ok(2) by (simp add: ensureTable_exists)
  have l4: "fst (loadAppliedSuccess ?r1 ?w2) = Inr []"
    using ok(3) ex none
    by (simp add: loadAppliedSuccess_fst loadApplied_fst filter_empty_conv)
  have D: "Down checksum r w =
      (Returned None, ?r1, unlocked r (snd (loadApplied ?r1 ?w2)))"
    using en ok(1,2)
    by (simp add: Down_def withLock_def Down_locked_def split_beta l3 l4
        loadAppliedSuccess_snd unlocked_def)
  show ?thesis
    using ok ex by (simp add: D loadApplied_snd)
qed

theorem Down_nothing_to_revert_witness:
  "fst (Down ex_checksum (New ex_opts) ex_world) = Returned None \<and>
   schema (snd (snd (Down ex_checksum (New ex_opts) ex_world))) = []"
proof -
  have en: "AllowDangerousDown (Opts (New ex_opts))"
    by (simp add: New_def Let_def ex_opts_def)
  have ok: "\<not> fails ex_world (calls ex_world)" "\<not> fails ex_world (Suc (calls ex_world))"
    "\<not> fails ex_world (Suc (Suc (calls ex_world)))"
    by (simp_all add: ex_world_def)
  have ld: "fst (loadMigrations ex_checksum (New ex_opts) ex_world) = None"
    by code_simp
  have none: "filter rowSuccess (rows_of ex_world (TableName (Opts (New ex_opts)))) = []"
    by (simp add: rows_of_def ex_world_def)
  have "schema ex_world = []"
    by (simp add: ex_world_def)
  with Down_nothing_to_revert [OF en ok ld none] show ?thesis
    by simp
qed


subsection \<open>Loading: duplicates\<close>

lemma file_keys_Nil [simp]: "file_keys [] = []"
  by (simp add: file_keys_def List.map_filter_simps)

lemma file_keys_Cons [simp]:
  "file_keys (f # fs) =
     (case parseFileName (ent_name f) of
        None \<Rightarrow> file_keys fs
      | Some m \<Rightarrow> mig_key m # file_keys fs)"
  by (simp add: file_keys_def List.map_filter_simps split: option.splits)

lemma collect_duplicate:
  assumes "\<forall>f\<in>set files. parseFileName (ent_name f) \<noteq> None \<longrightarrow> ent_data f \<noteq> None"
    and "\<not> distinct (file_keys files) \<or> set (file_keys files) \<inter> set seen \<noteq> {}"
  shows "\<exists>v d ms'. collect checksum files seen ms = (Some (DuplicateMigration v d), ms')"
  using assms
proof (induction files arbitrary: seen ms)
  case Nil
  then show ?case by simp
next
  case (Cons f fs)
  show ?case
  proof (cases "parseFileName (ent_name f)")
    case None
    with Cons.prems have "\<not> distinct (file_keys fs) \<or> set (file_keys fs) \<inter> set seen \<noteq> {}"
      by simp
    with Cons.IH [of seen ms] Cons.prems(1) None show ?thesis
      by simp
  next
    case (Some m)
    show ?thesis
    proof (cases "(Version m, Dir m) \<in> set seen")
      case True
      with Some show ?thesis by simp
    next
      case False
      from Cons.prems(1) Some obtain b where b: "ent_data f = Some b"
        by auto
      from Cons.prems(2) Some False
      have "\<not> distinct (file_keys fs) \<or>
            set (file_keys fs) \<inter> set ((Version m, Dir m) # seen) \<noteq> {}"
        by (auto simp: mig_key_def)
      with Cons.IH [of "(Version m, Dir m) # seen"] Cons.prems(1)
      obtain v d ms' where
        "collect checksum fs ((Version m, Dir m) # seen)
           (ms @ [m\<lparr>SQL := TrimSpace b, Checksum := checksum (TrimSpace b)\<rparr>])
         = (Some (DuplicateMigration v d), ms')"
        by (metis list.set_intros(2))
      with Some False b show ?thesis
        by (simp add: Let_def)
    qed
  qed
qed

lemma readRoots_Nil_files: "readRoots roots = Inr files \<Longrightarrow> files \<noteq> [] \<Longrightarrow> roots \<noteq> []"
  by auto

text \<open>
  Claim C3, amended. \<open>Up\<close> takes the advisory lock and creates the tracking table before it
  loads the migrations. When both succeed, the runner has not loaded yet, every source can
  be listed, every migration file can be read and two files (of two sources or of one)
  have the same version and direction, then \<open>Up\<close> returns a duplicate error; by then the
  lock has been taken and the table created, the unlock is sent afterwards, and no
  applied row is read or written.
\<close>

theorem Up_duplicate_after_lock:
  assumes ok: "\<not> fails w (calls w)" "\<not> fails w (Suc (calls w))"
    and nl: "\<not> loaded r"
    and rd: "readRoots (roots_of r w) = Inr files"
    and readable: "\<forall>f\<in>set files. parseFileName (ent_name f) \<noteq> None \<longrightarrow> ent_data f \<noteq> None"
    and dup: "\<not> distinct (file_keys files)"
  shows "\<exists>v d. fst (Up checksum r w) = Returned (Some (DuplicateMigration v d)) \<and>
           trace (snd (snd (Up checksum r w))) =
             trace w @ [(AdvisoryLock (LockKey (Opts r)), True),
                        (CreateTable (TableName (Opts r)), True),
                        (AdvisoryUnlock (LockKey (Opts r)), \<not> fails w (Suc (Suc (calls w))))] \<and>
           rows_of (snd (snd (Up checksum r w))) (TableName (Opts r))
             = rows_of w (TableName (Opts r)) \<and>
           schema (snd (snd (Up checksum r w))) = schema w"
proof -
  let ?w1 = "snd (db_call (AdvisoryLock (LockKey (Opts r))) True w)"
  let ?w2 = "snd (ensureTable r ?w1)"
  from collect_duplicate [OF readable, of "[]" checksum "migrations r"] dup
  obtain v d ms' where c: "collect checksum files [] (migrations r) = (Some (DuplicateMigration v d), ms')"
    by auto
  from rd dup have ne: "roots_of r w \<noteq> []"
    by auto
  have "loadMigrations checksum r w = (Some (DuplicateMigration v d), r\<lparr>migrations := ms'\<rparr>)"
    using nl rd ne c by (simp add: loadMigrations_def)
  then have l3: "loadMigrations checksum r ?w2 = (Some (DuplicateMigration v d), r\<lparr>migrations := ms'\<rparr>)"
    by (simp add: loadMigrations_disk [of ?w2 w])
  have U: "Up checksum r w =
      (Returned (Some (DuplicateMigration v d)), r\<lparr>migrations := ms'\<rparr>, unlocked r ?w2)"
    using ok by (simp add: Up_def withLock_def Up_locked_def split_beta l3 unlocked_def)
  show ?thesis
    using ok by (simp add: U)
qed

theorem Up_duplicate_after_lock_witness:
  "\<exists>v d. fst (Up ex_checksum (New (ex_opts\<lparr>MigrationsDirs := [''extra'']\<rparr>)) ex_world)
      = Returned (Some (DuplicateMigration v d))"
proof -
  let ?r = "New (ex_opts\<lparr>MigrationsDirs := [''extra'']\<rparr>)"
  let ?files = "[ex_file ''20240101_init.down.sql'' ''DROP TABLE a;'',
              ex_file ''20240101_init.up.sql'' ''CREATE TABLE a();'',
              ex_file ''20240102_more.down.sql'' ''DROP TABLE b;'',
              ex_file ''20240102_more.up.sql'' ''CREATE TABLE b();'',
              ex_file ''20240101_again.up.sql'' ''CREATE TABLE c();'']"
  have ok: "\<not> fails ex_world (calls ex_world)" "\<not> fails ex_world (Suc (calls ex_world))"
    by (simp_all add: ex_world_def)
  have nl: "\<not> loaded ?r"
    by (simp add: New_def Let_def)
  have rd: "readRoots (roots_of ?r ex_world) = Inr ?files"
    by code_simp
  have readable: "\<forall>f\<in>set ?files. parseFileName (ent_name f) \<noteq> None \<longrightarrow> ent_data f \<noteq> None"
    by (simp add: ex_file_def)
  have dup: "\<not> distinct (file_keys ?files)"
    by code_simp
  from Up_duplicate_after_lock [OF ok nl rd readable dup, of ex_checksum] show ?thesis
    by blast
qed

text \<open>
  Claim C3 as stated fails: with the directories \<open>migrations\<close> and \<open>extra\<close>, which both
  hold an up script of version 20240101, \<open>Up\<close> returns the duplicate error after it has
  taken the lock and created the tracking table, which did not exist before.
\<close>

theorem Up_duplicate_before_lock_counterexample:
  "fst (Up ex_checksum (New (ex_opts\<lparr>MigrationsDirs := [''extra'']\<rparr>)) ex_world)
     = Returned (Some (DuplicateMigration 20240101 ''up'')) \<and>
   trace (snd (snd (Up ex_checksum (New (ex_opts\<lparr>MigrationsDirs := [''extra'']\<rparr>)) ex_world)))
     = [(AdvisoryLock 913551337114213777, True), (CreateTable ''schema_migrations'', True),
        (AdvisoryUnlock 913551337114213777, True)] \<and>
   tables ex_world ''schema_migrations'' = None \<and>
   tables (snd (snd (Up ex_checksum (New (ex_opts\<lparr>MigrationsDirs := [''extra'']\<rparr>)) ex_world)))
     ''schema_migrations'' = Some []"
  by code_simp


subsection \<open>Up and Down after the prelude\<close>

lemma loadApplied_Opts: "Opts r1 = Opts r \<Longrightarrow> loadApplied r1 w = loadApplied r w"
  by (simp add: loadApplied_def)

lemma loadMigrations_result_Opts: "loadMigrations checksum r w = (e, r1) \<Longrightarrow> Opts r1 = Opts r"
  using loadMigrations_Opts [of checksum r w] by simp

lemma Up_after_prelude:
  assumes ok: "\<not> fails w (calls w)" "\<not> fails w (Suc (calls w))"
              "\<not> fails w (Suc (Suc (calls w)))"
    and ld: "loadMigrations checksum r w = (None, r1)"
  shows "Up checksum r w =
     (case pendingUp r1 (sort_Slice row_less (rows_of w (TableName (Opts r)))) of
        Inl p \<Rightarrow> (Panicked p, r1, unlocked r (prelude r w))
      | Inr pending \<Rightarrow>
          if pending = [] then (Returned None, r1, unlocked r (prelude r w))
          else (Returned (fst (applyAll r1 pending (prelude r w))), r1,
                unlocked r (snd (applyAll r1 pending (prelude r w)))))"
proof -
  let ?w1 = "snd (db_call (AdvisoryLock (LockKey (Opts r))) True w)"
  let ?w2 = "snd (ensureTable r ?w1)"
  have o: "Opts r1 = Opts r"
    using ld by (rule loadMigrations_result_Opts)
  have l3: "loadMigrations checksum r ?w2 = (None, r1)"
    using ld by (simp add: loadMigrations_disk [of ?w2 w])
  have ex: "tables ?w2 (TableName (Opts r)) \<noteq> None"
    using ok(2) by (simp add: ensureTable_exists)
  have l4: "fst (loadApplied r1 ?w2) = Inr (sort_Slice row_less (rows_of w (TableName (Opts r))))"
    using ok(3) ex by (simp add: loadApplied_fst o)
  have l5: "snd (loadApplied r1 ?w2) = prelude r w"
    by (simp add: prelude_def loadApplied_Opts [OF o])
  show ?thesis
    using ok(1,2)
    by (simp add: Up_def withLock_def Up_locked_def split_beta l3 l4 l5 unlocked_def
        split: sum.splits)
qed

lemma Down_after_prelude:
  assumes en: "AllowDangerousDown (Opts r)"
    and ok: "\<not> fails w (calls w)" "\<not> fails w (Suc (calls w))"
            "\<not> fails w (Suc (Suc (calls w)))"
    and ld: "loadMigrations checksum r w = (None, r1)"
  shows "Down checksum r w =
     (let appliedOK = filter rowSuccess (sort_Slice row_less (rows_of w (TableName (Opts r))))
      in if appliedOK = [] then (Returned None, r1, unlocked r (prelude r w))
         else case find_migration r1 (rowVersion (last appliedOK)) ''down'' of
                None \<Rightarrow> (Returned (Some (NoDownMigration (rowVersion (last appliedOK))
                                          (rowName (last appliedOK)))),
                         r1, unlocked r (prelude r w))
              | Some down \<Rightarrow>
                  (Returned (fst (revertOne r1 down (prelude r w))), r1,
                   unlocked r (snd (revertOne r1 down (prelude r w)))))"
proof -
  let ?w1 = "snd (db_call (AdvisoryLock (LockKey (Opts r))) True w)"
  let ?w2 = "snd (ensureTable r ?w1)"
  have o: "Opts r1 = Opts r"
    using ld by (rule loadMigrations_result_Opts)
  have l3: "loadMigrations checksum r ?w2 = (None, r1)"
    using ld by (simp add: loadMigrations_disk [of ?w2 w])
  have ex: "tables ?w2 (TableName (Opts r)) \<noteq> None"
    using ok(2) by (simp add: ensureTable_exists)
  have l4: "fst (loadAppliedSuccess r1 ?w2) =
      Inr (filter rowSuccess (sort_Slice row_less (rows_of w (TableName (Opts r)))))"
    using ok(3) ex by (simp add: loadAppliedSuccess_fst loadApplied_fst o)
  have l5: "snd (loadAppliedSuccess r1 ?w2) = prelude r w"
    by (simp add: loadAppliedSuccess_snd prelude_def loadApplied_Opts [OF o])
  show ?thesis
    using en ok(1,2)
    by (simp add: Down_def withLock_def Down_locked_def split_beta l3 l4 l5 unlocked_def Let_def
        split: option.splits)
qed

subsection \<open>The applied set and the pending loop\<close>

lemma distinct_map_insert_slice:
  "distinct (map f (insert_slice lt x xs)) = (f x \<notin> f ` set xs \<and> distinct (map f xs))"
  by (induction xs) auto

lemma distinct_map_sort_Slice [simp]:
  "distinct (map f (sort_Slice lt xs)) = distinct (map f xs)"
proof (induction xs)
  case Nil
  show ?case by (simp add: sort_Slice_def)
next
  case (Cons x xs)
  have "sort_Slice lt (x # xs) = insert_slice lt x (sort_Slice lt xs)"
    by (simp add: sort_Slice_def)
  with Cons show ?case
    by (simp add: distinct_map_insert_slice)
qed

lemma foldl_appliedSet:
  "distinct (map rowVersion rows) \<Longrightarrow>
   foldl (\<lambda>s a. if rowSuccess a then s(rowVersion a \<mapsto> a) else s) s rows v =
     (case find (\<lambda>a. rowSuccess a \<and> rowVersion a = v) rows of
        Some a \<Rightarrow> Some a
      | None \<Rightarrow> s v)"
proof (induction rows arbitrary: s)
  case Nil
  show ?case by simp
next
  case (Cons a rows)
  have none: "find (\<lambda>b. rowSuccess b \<and> rowVersion b = rowVersion a) rows = None"
    using Cons.prems by (auto simp: find_None_iff image_iff)
  from Cons show ?case
    by (auto simp: none split: option.splits)
qed

lemma appliedSet_Some:
  assumes "distinct (map rowVersion rows)"
  shows "(appliedSet rows v = Some a) = (a \<in> set rows \<and> rowSuccess a \<and> rowVersion a = v)"
proof -
  have "appliedSet rows v = find (\<lambda>a. rowSuccess a \<and> rowVersion a = v) rows"
    using assms by (simp add: appliedSet_def foldl_appliedSet split: option.splits)
  moreover have "(find (\<lambda>a. rowSuccess a \<and> rowVersion a = v) rows = Some a) =
      (a \<in> set rows \<and> rowSuccess a \<and> rowVersion a = v)"
  proof
    assume "find (\<lambda>a. rowSuccess a \<and> rowVersion a = v) rows = Some a"
    then show "a \<in> set rows \<and> rowSuccess a \<and> rowVersion a = v"
      by (auto simp: find_Some_iff)
  next
    assume h: "a \<in> set rows \<and> rowSuccess a \<and> rowVersion a = v"
    then obtain b where b: "find (\<lambda>a. rowSuccess a \<and> rowVersion a = v) rows = Some b"
      by (cases "find (\<lambda>a. rowSuccess a \<and> rowVersion a = v) rows") (auto simp: find_None_iff)
    then have "b \<in> set rows" "rowVersion b = v"
      by (auto simp: find_Some_iff)
    with h assms have "b = a"
      by (metis distinct_map inj_onD)
    with b show "find (\<lambda>a. rowSuccess a \<and> rowVersion a = v) rows = Some a"
      by simp
  qed
  ultimately show ?thesis by simp
qed

lemma pendingLoop_drift:
  assumes "\<exists>m\<in>set ms. Dir m = ''up'' \<and> (\<exists>a. s (Version m) = Some a \<and> rowChecksum a \<noteq> Checksum m)"
  shows "\<exists>m\<in>set ms. \<exists>a. Dir m = ''up'' \<and> s (Version m) = Some a \<and> rowChecksum a \<noteq> Checksum m \<and>
           pendingLoop s ms acc = Inl (ChecksumMismatch (Version m) (rowChecksum a) (Checksum m))"
  using assms
proof (induction ms arbitrary: acc)
  case Nil
  then show ?case by simp
next
  case (Cons m ms)
  show ?case
  proof (cases "Dir m = ''up'' \<and> (\<exists>a. s (Version m) = Some a \<and> rowChecksum a \<noteq> Checksum m)")
    case True
    then show ?thesis by auto
  next
    case False
    with Cons.prems have
      "\<exists>m\<in>set ms. Dir m = ''up'' \<and> (\<exists>a. s (Version m) = Some a \<and> rowChecksum a \<noteq> Checksum m)"
      by auto
    from Cons.IH [OF this] have
      "\<And>acc. \<exists>m\<in>set ms. \<exists>a. Dir m = ''up'' \<and> s (Version m) = Some a \<and> rowChecksum a \<noteq> Checksum m \<and>
           pendingLoop s ms acc = Inl (ChecksumMismatch (Version m) (rowChecksum a) (Checksum m))"
      by blast
    with False show ?thesis
      by (auto split: option.splits)
  qed
qed


subsection \<open>Drift\<close>

text \<open>
  Claim C1, amended. When the lock, the table creation, the load and the query succeed,
  the tracking table has one row for a version, and some \<open>success = true\<close> row has a
  checksum that differs from the checksum of a loaded up script of its version, then \<open>Up\<close>
  does not return: it panics with a checksum mismatch for such a script and row. Nothing
  has been applied or recorded by then: the rows and the executed scripts are unchanged and
  the only database calls are lock, create table, select and the deferred unlock.
\<close>

theorem Up_drift_panics:
  assumes ok: "\<not> fails w (calls w)" "\<not> fails w (Suc (calls w))"
              "\<not> fails w (Suc (Suc (calls w)))"
    and ld: "loadMigrations checksum r w = (None, r1)"
    and pk: "distinct (map rowVersion (rows_of w (TableName (Opts r))))"
    and drift: "\<exists>m\<in>set (migrations r1). \<exists>a\<in>set (rows_of w (TableName (Opts r))).
                  Dir m = ''up'' \<and> rowSuccess a \<and> rowVersion a = Version m \<and>
                  rowChecksum a \<noteq> Checksum m"
  shows "(\<exists>m\<in>set (migrations r1). \<exists>a\<in>set (rows_of w (TableName (Opts r))).
            Dir m = ''up'' \<and> rowSuccess a \<and> rowVersion a = Version m \<and>
            rowChecksum a \<noteq> Checksum m \<and>
            fst (Up checksum r w) =
              Panicked (ChecksumMismatch (Version m) (rowChecksum a) (Checksum m))) \<and>
         rows_of (snd (snd (Up checksum r w))) (TableName (Opts r))
           = rows_of w (TableName (Opts r)) \<and>
         schema (snd (snd (Up checksum r w))) = schema w \<and>
         trace (snd (snd (Up checksum r w))) =
           trace w @ [(AdvisoryLock (LockKey (Opts r)), True),
                      (CreateTable (TableName (Opts r)), True),
                      (SelectRows (TableName (Opts r)), True),
                      (AdvisoryUnlock (LockKey (Opts r)),
                         \<not> fails w (Suc (Suc (Suc (calls w)))))]"
proof -
  let ?rows = "rows_of w (TableName (Opts r))"
  let ?s = "appliedSet (sort_Slice row_less ?rows)"
  have S: "\<And>v a. (?s v = Some a) = (a \<in> set ?rows \<and> rowSuccess a \<and> rowVersion a = v)"
    using pk by (simp add: appliedSet_Some)
  from drift have
    "\<exists>m\<in>set (migrations r1). Dir m = ''up'' \<and>
        (\<exists>a. ?s (Version m) = Some a \<and> rowChecksum a \<noteq> Checksum m)"
    by (auto simp: S)
  from pendingLoop_drift [OF this, of "[]"]
  obtain m a where m: "m \<in> set (migrations r1)" "Dir m = ''up''"
    and a: "?s (Version m) = Some a" "rowChecksum a \<noteq> Checksum m"
    and p: "pendingLoop ?s (migrations r1) [] =
              Inl (ChecksumMismatch (Version m) (rowChecksum a) (Checksum m))"
    by blast
  have U: "Up checksum r w =
      (Panicked (ChecksumMismatch (Version m) (rowChecksum a) (Checksum m)), r1,
       unlocked r (prelude r w))"
    by (simp add: Up_after_prelude [OF ok ld] pendingUp_def p)
  from a(1) have a': "a \<in> set ?rows" "rowSuccess a" "rowVersion a = Version m"
    by (simp_all add: S)
  have "\<exists>m\<in>set (migrations r1). \<exists>a\<in>set ?rows.
            Dir m = ''up'' \<and> rowSuccess a \<and> rowVersion a = Version m \<and>
            rowChecksum a \<noteq> Checksum m \<and>
            fst (Up checksum r w) =
              Panicked (ChecksumMismatch (Version m) (rowChecksum a) (Checksum m))"
    using m a(2) a' U by auto
  then show ?thesis
    using ok by (simp add: U prelude_fields)
qed

theorem Up_drift_panics_witness:
  "fst (Up ex_checksum (New ex_opts) ex_drift_world) =
     Panicked (ChecksumMismatch 20240101 ''CREATE TABLE a();'' ''CREATE TABLE a(id int);'') \<and>
   schema (snd (snd (Up ex_checksum (New ex_opts) ex_drift_world))) = schema ex_drift_world"
proof -
  let ?r1 = "snd (loadMigrations ex_checksum (New ex_opts) ex_drift_world)"
  have ok: "\<not> fails ex_drift_world (calls ex_drift_world)"
    "\<not> fails ex_drift_world (Suc (calls ex_drift_world))"
    "\<not> fails ex_drift_world (Suc (Suc (calls ex_drift_world)))"
    by code_simp+
  have "fst (loadMigrations ex_checksum (New ex_opts) ex_drift_world) = None"
    by code_simp
  then have ld: "loadMigrations ex_checksum (New ex_opts) ex_drift_world = (None, ?r1)"
    by (simp add: prod_eq_iff)
  have pk: "distinct (map rowVersion (rows_of ex_drift_world (TableName (Opts (New ex_opts)))))"
    by code_simp
  have drift: "\<exists>m\<in>set (migrations ?r1).
      \<exists>a\<in>set (rows_of ex_drift_world (TableName (Opts (New ex_opts)))).
        Dir m = ''up'' \<and> rowSuccess a \<and> rowVersion a = Version m \<and>
        rowChecksum a \<noteq> Checksum m"
    by code_simp
  have p: "fst (Up ex_checksum (New ex_opts) ex_drift_world) =
     Panicked (ChecksumMismatch 20240101 ''CREATE TABLE a();'' ''CREATE TABLE a(id int);'')"
    by code_simp
  from Up_drift_panics [OF ok ld pk drift] p show ?thesis
    by simp
qed

text \<open>
  Claim C1 as stated fails: once both versions are applied and the up script of version
  20240101 is edited on disk, the next \<open>Up\<close> of a new runner does not return an error to
  its caller; it panics.
\<close>

theorem Up_drift_returns_error_counterexample:
  "\<not> returns_error (fst (Up ex_checksum (New ex_opts) ex_drift_world)) \<and>
   fst (Up ex_checksum (New ex_opts) ex_drift_world) =
     Panicked (ChecksumMismatch 20240101 ''CREATE TABLE a();'' ''CREATE TABLE a(id int);'')"
  by code_simp


subsection \<open>The record that Down reverts\<close>

lemma sorted_insert_slice_rows:
  "sorted_wrt (\<lambda>a b. \<not> row_less b a) xs \<Longrightarrow>
   sorted_wrt (\<lambda>a b. \<not> row_less b a) (insert_slice row_less x xs)"
  by (induction xs) (auto simp: row_less_def)

lemma sorted_sort_Slice_rows: "sorted_wrt (\<lambda>a b. \<not> row_less b a) (sort_Slice row_less xs)"
proof (induction xs)
  case Nil
  show ?case by (simp add: sort_Slice_def)
next
  case (Cons x xs)
  have "sort_Slice row_less (x # xs) = insert_slice row_less x (sort_Slice row_less xs)"
    by (simp add: sort_Slice_def)
  with Cons show ?case
    by (simp add: sorted_insert_slice_rows)
qed

lemma sorted_wrt_last:
  "sorted_wrt R xs \<Longrightarrow> xs \<noteq> [] \<Longrightarrow> a \<in> set xs \<Longrightarrow> a = last xs \<or> R a (last xs)"
  by (induction xs) auto

lemma last_applied_greatest:
  assumes ne: "filter rowSuccess rows \<noteq> []"
  defines "latest \<equiv> last (filter rowSuccess (sort_Slice row_less rows))"
  shows "latest \<in> set rows" and "rowSuccess latest"
    and "a \<in> set rows \<Longrightarrow> rowSuccess a \<Longrightarrow> \<not> row_less latest a"
proof -
  let ?ok = "filter rowSuccess (sort_Slice row_less rows)"
  from ne have ne': "?ok \<noteq> []"
    by (simp add: filter_empty_conv)
  then have "latest \<in> set ?ok"
    unfolding latest_def by (rule last_in_set)
  then show "latest \<in> set rows" and "rowSuccess latest"
    by simp_all
  have s: "sorted_wrt (\<lambda>a b. \<not> row_less b a) ?ok"
    by (rule sorted_wrt_filter) (rule sorted_sort_Slice_rows)
  assume "a \<in> set rows" "rowSuccess a"
  then have "a \<in> set ?ok" by simp
  from sorted_wrt_last [OF s ne' this] show "\<not> row_less latest a"
    unfolding latest_def by (auto simp: row_less_def)
qed

lemma find_migration_Some:
  "find_migration r v d = Some m \<Longrightarrow> m \<in> set (migrations r) \<and> Version m = v \<and> Dir m = d"
  by (auto simp: find_migration_def find_Some_iff)

text \<open>
  Claim C2, amended. When reverting is enabled, the lock, the table creation, the load and
  the query succeed and some row has \<open>success = true\<close>, the record that \<open>Down\<close> reverts is
  the \<open>success = true\<close> row that is last in the order of the query, by \<open>applied_at\<close> and then
  by version: no \<open>success = true\<close> row was applied later, and none applied at the same time
  has a greater version. The down script is looked up by the version of that row. When
  none is loaded, \<open>Down\<close> returns the error \<open>NoDownMigration\<close> for that row; the rows and the
  executed scripts are unchanged and the only database calls are lock, create table, select
  and unlock. Otherwise \<open>Down\<close> returns what \<open>revertOne\<close> returns for that script.
\<close>

theorem Down_reverts_last_applied:
  assumes en: "AllowDangerousDown (Opts r)"
    and ok: "\<not> fails w (calls w)" "\<not> fails w (Suc (calls w))"
            "\<not> fails w (Suc (Suc (calls w)))"
    and ld: "loadMigrations checksum r w = (None, r1)"
    and ne: "filter rowSuccess (rows_of w (TableName (Opts r))) \<noteq> []"
  shows "\<exists>latest.
     latest \<in> set (rows_of w (TableName (Opts r))) \<and> rowSuccess latest \<and>
     (\<forall>a\<in>set (rows_of w (TableName (Opts r))). rowSuccess a \<longrightarrow>
        rowAppliedAt a < rowAppliedAt latest \<or>
        (rowAppliedAt a = rowAppliedAt latest \<and> rowVersion a \<le> rowVersion latest)) \<and>
     (case find_migration r1 (rowVersion latest) ''down'' of
        None \<Rightarrow>
          fst (Down checksum r w) =
            Returned (Some (NoDownMigration (rowVersion latest) (rowName latest))) \<and>
          rows_of (snd (snd (Down checksum r w))) (TableName (Opts r))
            = rows_of w (TableName (Opts r)) \<and>
          schema (snd (snd (Down checksum r w))) = schema w \<and>
          trace (snd (snd (Down checksum r w))) =
            trace w @ [(AdvisoryLock (LockKey (Opts r)), True),
                       (CreateTable (TableName (Opts r)), True),
                       (SelectRows (TableName (Opts r)), True),
                       (AdvisoryUnlock (LockKey (Opts r)),
                          \<not> fails w (Suc (Suc (Suc (calls w)))))]
      | Some down \<Rightarrow>
          down \<in> set (migrations r1) \<and> Version down = rowVersion latest \<and>
          Dir down = ''down'' \<and>
          Down checksum r w =
            (Returned (fst (revertOne r1 down (prelude r w))), r1,
             unlocked r (snd (revertOne r1 down (prelude r w)))))"
proof -
  let ?rows = "rows_of w (TableName (Opts r))"
  let ?ok = "filter rowSuccess (sort_Slice row_less ?rows)"
  let ?latest = "last ?ok"
  from ne have ne': "?ok \<noteq> []"
    by (simp add: filter_empty_conv)
  have D: "Down checksum r w =
     (case find_migration r1 (rowVersion ?latest) ''down'' of
        None \<Rightarrow> (Returned (Some (NoDownMigration (rowVersion ?latest) (rowName ?latest))),
                 r1, unlocked r (prelude r w))
      | Some down \<Rightarrow>
          (Returned (fst (revertOne r1 down (prelude r w))), r1,
           unlocked r (snd (revertOne r1 down (prelude r w)))))"
    using ne' by (simp add: Down_after_prelude [OF en ok ld] Let_def)
  have 1: "?latest \<in> set ?rows" "rowSuccess ?latest"
    using last_applied_greatest(1,2) [OF ne] by simp_all
  have 2: "\<forall>a\<in>set ?rows. rowSuccess a \<longrightarrow>
        rowAppliedAt a < rowAppliedAt ?latest \<or>
        (rowAppliedAt a = rowAppliedAt ?latest \<and> rowVersion a \<le> rowVersion ?latest)"
    using last_applied_greatest(3) [OF ne] by (fastforce simp: row_less_def)
  have 3: "case find_migration r1 (rowVersion ?latest) ''down'' of
        None \<Rightarrow>
          fst (Down checksum r w) =
            Returned (Some (NoDownMigration (rowVersion ?latest) (rowName ?latest))) \<and>
          rows_of (snd (snd (Down checksum r w))) (TableName (Opts r)) = ?rows \<and>
          schema (snd (snd (Down checksum r w))) = schema w \<and>
          trace (snd (snd (Down checksum r w))) =
            trace w @ [(AdvisoryLock (LockKey (Opts r)), True),
                       (CreateTable (TableName (Opts r)), True),
                       (SelectRows (TableName (Opts r)), True),
                       (AdvisoryUnlock (LockKey (Opts r)),
                          \<not> fails w (Suc (Suc (Suc (calls w)))))]
      | Some down \<Rightarrow>
          down \<in> set (migrations r1) \<and> Version down = rowVersion ?latest \<and>
          Dir down = ''down'' \<and>
          Down checksum r w =
            (Returned (fst (revertOne r1 down (prelude r w))), r1,
             unlocked r (snd (revertOne r1 down (prelude r w))))"
  proof (cases "find_migration r1 (rowVersion ?latest) ''down''")
    case None
    then show ?thesis
      using ok by (simp add: D prelude_fields)
  next
    case (Some down)
    with find_migration_Some [OF Some] show ?thesis
      by (simp add: D)
  qed
  from 1 2 3 show ?thesis
    by blast
qed

theorem Down_reverts_last_applied_witness:
  "\<exists>latest. latest \<in> set (rows_of ex_late_world (TableName (Opts (New ex_opts)))) \<and>
      rowSuccess latest \<and>
      find_migration (snd (loadMigrations ex_checksum (New ex_opts) ex_late_world))
        (rowVersion latest) ''down'' \<noteq> None"
proof -
  let ?r1 = "snd (loadMigrations ex_checksum (New ex_opts) ex_late_world)"
  have en: "AllowDangerousDown (Opts (New ex_opts))"
    by (simp add: New_def Let_def ex_opts_def)
  have ok: "\<not> fails ex_late_world (calls ex_late_world)"
    "\<not> fails ex_late_world (Suc (calls ex_late_world))"
    "\<not> fails ex_late_world (Suc (Suc (calls ex_late_world)))"
    by code_simp+
  have "fst (loadMigrations ex_checksum (New ex_opts) ex_late_world) = None"
    by code_simp
  then have ld: "loadMigrations ex_checksum (New ex_opts) ex_late_world = (None, ?r1)"
    by (simp add: prod_eq_iff)
  have ne: "filter rowSuccess (rows_of ex_late_world (TableName (Opts (New ex_opts)))) \<noteq> []"
    by code_simp
  have all: "\<forall>a\<in>set (rows_of ex_late_world (TableName (Opts (New ex_opts)))).
      find_migration ?r1 (rowVersion a) ''down'' \<noteq> None"
    by code_simp
  from Down_reverts_last_applied [OF en ok ld ne] all show ?thesis
    by blast
qed

text \<open>
  Claim C2 as stated fails. Version 20240102 was applied first and version 20240101, added
  to the directory later, was applied by the next run. Both rows have \<open>success = true\<close>;
  \<open>Down\<close> reverts version 20240101, not the greatest version 20240102, whose row stays.
\<close>

theorem Down_greatest_version_counterexample:
  "map (\<lambda>a. (rowVersion a, rowAppliedAt a, rowSuccess a))
       (rows_of ex_late_world ''schema_migrations'')
     = [(20240102, 6, True), (20240101, 14, True)] \<and>
   fst (Down ex_checksum (New ex_opts) ex_late_world) = Returned None \<and>
   map rowVersion
       (rows_of (snd (snd (Down ex_checksum (New ex_opts) ex_late_world))) ''schema_migrations'')
     = [20240102] \<and>
   schema (snd (snd (Down ex_checksum (New ex_opts) ex_late_world)))
     = schema ex_late_world @ [''DROP TABLE a;'']"
  by code_simp


subsection \<open>Reverting one version\<close>

text \<open>
  Claim C5. \<open>revertOne\<close> works in one transaction. What it returns, the database calls it
  makes (in order, with their success), the rows of the tracking table and the executed
  scripts afterwards are given by the table below, where \<open>c\<close> is the number of the first
  call, \<open>d\<close> the number of the delete and \<open>n\<close> the number of rows of that version.
  The down script is executed first, and only when its trimmed text is not empty; the
  delete of the tracking row follows; when the delete does not affect exactly one row the
  transaction is rolled back and the integrity error \<open>NoRowDeleted\<close> is returned; the
  commit is called only when the script (if any) and the delete succeeded and one row was
  affected; the row leaves the table and the script counts as executed only when the
  commit succeeds.
\<close>

theorem revertOne_steps:
  "(fst (revertOne r m w), trace (snd (revertOne r m w)),
    rows_of (snd (revertOne r m w)) (TableName (Opts r)), schema (snd (revertOne r m w))) =
   (let tn = TableName (Opts r); c = calls w; v = Version m; rows = rows_of w tn;
        run = (TrimSpace (SQL m) \<noteq> []);
        d = (if run then Suc (Suc c) else Suc c);
        n = length (filter (\<lambda>a. rowVersion a = v) rows);
        script = (if run then [(TxExec (SQL m), True)] else [])
    in if fails w c then
         (Some (DbError c), trace w @ [(BeginTx, False)], rows, schema w)
       else if run \<and> fails w (Suc c) then
         (Some (RevertFailed v (DbError (Suc c))),
          trace w @ [(BeginTx, True), (TxExec (SQL m), False),
                     (TxRollback, \<not> fails w (Suc (Suc c)))],
          rows, schema w)
       else if tables w tn = None \<or> fails w d then
         (Some (DbError d),
          trace w @ (BeginTx, True) # script @
            [(TxDelete tn v, False), (TxRollback, \<not> fails w (Suc d))],
          rows, schema w)
       else if n \<noteq> 1 then
         (Some (NoRowDeleted v tn),
          trace w @ (BeginTx, True) # script @
            [(TxDelete tn v, True), (TxRollback, \<not> fails w (Suc d))],
          rows, schema w)
       else if fails w (Suc d) then
         (Some (DbError (Suc d)),
          trace w @ (BeginTx, True) # script @ [(TxDelete tn v, True), (TxCommit, False)],
          rows, schema w)
       else
         (None,
          trace w @ (BeginTx, True) # script @ [(TxDelete tn v, True), (TxCommit, True)],
          filter (\<lambda>a. rowVersion a \<noteq> v) rows,
          schema w @ (if run then [SQL m] else [])))"
proof (cases "TrimSpace (SQL m) \<noteq> []")
  case True
  then show ?thesis
    by (simp add: revertOne_def Let_def split_beta rows_of_def)
next
  case False
  then show ?thesis
    by (simp add: revertOne_def Let_def split_beta rows_of_def)
qed

theorem revertOne_steps_witness:
  "fst (revertOne (New ex_opts)
          \<lparr>Version = 20240101, Name = ''init'', Dir = ''down'',
           File = ''20240101_init.down.sql'', SQL = ''DROP TABLE a;'',
           Checksum = ''DROP TABLE a;''\<rparr> ex_late_world) = None \<and>
   trace (snd (revertOne (New ex_opts)
          \<lparr>Version = 20240101, Name = ''init'', Dir = ''down'',
           File = ''20240101_init.down.sql'', SQL = ''DROP TABLE a;'',
           Checksum = ''DROP TABLE a;''\<rparr> ex_late_world)) =
     trace ex_late_world @
       [(BeginTx, True), (TxExec ''DROP TABLE a;'', True),
        (TxDelete ''schema_migrations'' 20240101, True), (TxCommit, True)]"
proof -
  let ?m = "\<lparr>Version = 20240101, Name = ''init'', Dir = ''down'',
           File = ''20240101_init.down.sql'', SQL = ''DROP TABLE a;'',
           Checksum = ''DROP TABLE a;''\<rparr>"
  have f: "\<not> fails ex_late_world (calls ex_late_world)"
    "\<not> fails ex_late_world (Suc (calls ex_late_world))"
    "\<not> fails ex_late_world (Suc (Suc (calls ex_late_world)))"
    "\<not> fails ex_late_world (Suc (Suc (Suc (calls ex_late_world))))"
    by code_simp+
  have t: "TrimSpace ''DROP TABLE a;'' \<noteq> []"
    by code_simp
  have tn: "TableName (Opts (New ex_opts)) = ''schema_migrations''"
    by code_simp
  have e: "tables ex_late_world ''schema_migrations'' \<noteq> None"
    by code_simp
  have n: "length (filter (\<lambda>a. rowVersion a = 20240101)
             (rows_of ex_late_world ''schema_migrations'')) = Suc 0"
    by code_simp
  from revertOne_steps [of "New ex_opts" ?m ex_late_world] show ?thesis
    by (simp add: Let_def f t tn e n)
qed


subsection \<open>Applying one migration\<close>

lemma record_row_fst:
  "fst (record_row r m ms ok w) =
     (if tables w (TableName (Opts r)) \<noteq> None \<and> \<not> fails w (calls w) then None
      else Some (DbError (calls w)))"
  by (simp add: record_row_def Let_def db_call_def)

lemma record_row_fields [simp]:
  "disk (snd (record_row r m ms ok w)) = disk w"
  "schema (snd (record_row r m ms ok w)) = schema w"
  "fails (snd (record_row r m ms ok w)) = fails w"
  "now (snd (record_row r m ms ok w)) = now w"
  "elapsed (snd (record_row r m ms ok w)) = elapsed w"
  "calls (snd (record_row r m ms ok w)) = Suc (calls w)"
  "trace (snd (record_row r m ms ok w)) =
     trace w @ [(Upsert (TableName (Opts r)) (Version m) (Name m) (Checksum m) ms ok,
                 tables w (TableName (Opts r)) \<noteq> None \<and> \<not> fails w (calls w))]"
  by (simp_all add: record_row_def Let_def db_call_def)

lemma record_row_rows:
  "rows_of (snd (record_row r m ms ok w)) (TableName (Opts r)) =
     (if tables w (TableName (Opts r)) \<noteq> None \<and> \<not> fails w (calls w)
      then upsert \<lparr>rowVersion = Version m, rowName = Name m, rowChecksum = Checksum m,
                   rowAppliedAt = now w (calls w), rowExecMS = ms, rowSuccess = ok\<rparr>
             (rows_of w (TableName (Opts r)))
      else rows_of w (TableName (Opts r)))"
  by (simp add: record_row_def Let_def db_call_def rows_of_def)

lemma rows_of_schema_update [simp]: "rows_of (w\<lparr>schema := s\<rparr>) tn = rows_of w tn"
  by (simp add: rows_of_def)

lemma record_row_exists [simp]:
  "(tables (snd (record_row r m ms ok w)) (TableName (Opts r)) = None) =
   (tables w (TableName (Opts r)) = None)"
  by (simp add: record_row_def Let_def db_call_def)

text \<open>What \<open>applyOne\<close> returns, the calls it makes, and the rows and executed scripts
  afterwards; \<open>c\<close> is the number of its first call.\<close>

lemma applyOne_steps:
  "(fst (applyOne r m w), trace (snd (applyOne r m w)),
    rows_of (snd (applyOne r m w)) (TableName (Opts r)), schema (snd (applyOne r m w))) =
   (let tn = TableName (Opts r); c = calls w; rows = rows_of w tn;
        execMS = elapsed w (Suc c);
        stored = (tables w tn \<noteq> None \<and> \<not> fails w (Suc (Suc (Suc c))));
        row = (\<lambda>ok. \<lparr>rowVersion = Version m, rowName = Name m, rowChecksum = Checksum m,
                      rowAppliedAt = now w (Suc (Suc (Suc c))), rowExecMS = execMS,
                      rowSuccess = ok\<rparr>);
        rec = (\<lambda>ok. (Upsert tn (Version m) (Name m) (Checksum m) execMS ok, stored))
    in if fails w c then
         (Some (DbError c), trace w @ [(BeginTx, False)], rows, schema w)
       else if fails w (Suc c) then
         (Some (MigrationFailed (Version m) (DbError (Suc c))),
          trace w @ [(BeginTx, True), (TxExec (SQL m), False),
                     (TxRollback, \<not> fails w (Suc (Suc c))), rec False],
          if stored then upsert (row False) rows else rows, schema w)
       else if fails w (Suc (Suc c)) then
         (Some (DbError (Suc (Suc c))),
          trace w @ [(BeginTx, True), (TxExec (SQL m), True), (TxCommit, False), rec False],
          if stored then upsert (row False) rows else rows, schema w)
       else
         (if stored then None else Some (DbError (Suc (Suc (Suc c)))),
          trace w @ [(BeginTx, True), (TxExec (SQL m), True), (TxCommit, True), rec True],
          if stored then upsert (row True) rows else rows, schema w @ [SQL m]))"
  by (simp add: applyOne_def Let_def split_beta record_row_fst record_row_rows)

lemma applyOne_fields [simp]:
  "disk (snd (applyOne r m w)) = disk w"
  "fails (snd (applyOne r m w)) = fails w"
  "now (snd (applyOne r m w)) = now w"
  "elapsed (snd (applyOne r m w)) = elapsed w"
  by (simp_all add: applyOne_def Let_def split_beta split: option.splits)

lemma applyOne_exists [simp]:
  "(tables (snd (applyOne r m w)) (TableName (Opts r)) = None) =
   (tables w (TableName (Opts r)) = None)"
  by (simp add: applyOne_def Let_def split_beta split: option.splits)

lemma applyAll_fields [simp]:
  "disk (snd (applyAll r ms w)) = disk w"
  "fails (snd (applyAll r ms w)) = fails w"
  "now (snd (applyAll r ms w)) = now w"
  "elapsed (snd (applyAll r ms w)) = elapsed w"
  by (induction ms arbitrary: w; simp add: split_beta split: option.splits)+

lemma applyAll_exists [simp]:
  "(tables (snd (applyAll r ms w)) (TableName (Opts r)) = None) =
   (tables w (TableName (Opts r)) = None)"
  by (induction ms arbitrary: w) (simp_all add: split_beta split: option.splits)

lemma applyAll_append:
  "applyAll r (xs @ ys) w =
     (case applyAll r xs w of
        (Some e, w1) \<Rightarrow> (Some e, w1)
      | (None, w1) \<Rightarrow> applyAll r ys w1)"
  by (induction xs arbitrary: w) (simp_all split: prod.splits option.splits)


subsection \<open>Which errors are returned\<close>



lemma Up_returns_nil_prelude:
  assumes "fst (Up checksum r w) = Returned None"
  shows "\<not> fails w (calls w)" and "\<not> fails w (Suc (calls w))"
    and "\<not> fails w (Suc (Suc (calls w)))"
    and "fst (loadMigrations checksum r w) = None"
proof -
  let ?w1 = "snd (db_call (AdvisoryLock (LockKey (Opts r))) True w)"
  let ?w2 = "snd (ensureTable r ?w1)"
  let ?r1 = "snd (loadMigrations checksum r ?w2)"
  have d: "loadMigrations checksum r ?w2 = loadMigrations checksum r w"
    by (simp add: loadMigrations_disk [of ?w2 w])
  from assms show 1: "\<not> fails w (calls w)"
    by (auto simp: Up_def withLock_def split_beta split: option.splits if_splits)
  from assms 1 show 2: "\<not> fails w (Suc (calls w))"
    by (auto simp: Up_def withLock_def Up_locked_def split_beta split: option.splits if_splits)
  from assms 1 2 show 3: "fst (loadMigrations checksum r w) = None"
    by (auto simp: Up_def withLock_def Up_locked_def split_beta d split: option.splits if_splits)
  from assms 1 2 3 have "\<exists>rows. fst (loadApplied ?r1 ?w2) = Inr rows"
    by (auto simp: Up_def withLock_def Up_locked_def split_beta d
        split: option.splits sum.splits if_splits)
  then show "\<not> fails w (Suc (Suc (calls w)))"
    by (auto simp: loadApplied_fst split: if_splits)
qed

subsection \<open>The registry after a load\<close>

lemma mig_key_update [simp]: "mig_key (m\<lparr>SQL := x, Checksum := y\<rparr>) = mig_key m"
  by (simp add: mig_key_def)

lemma collect_ok:
  "collect checksum files seen ms = (None, ms') \<Longrightarrow>
   map mig_key ms' = map mig_key ms @ file_keys files \<and>
   distinct (file_keys files) \<and> set (file_keys files) \<inter> set seen = {}"
proof (induction files arbitrary: seen ms)
  case Nil
  then show ?case by simp
next
  case (Cons f fs)
  show ?case
  proof (cases "parseFileName (ent_name f)")
    case None
    with Cons show ?thesis by simp
  next
    case (Some m)
    from Cons.prems Some have fresh: "mig_key m \<notin> set seen"
      by (auto simp: mig_key_def split: if_splits)
    then have fresh': "(Version m, Dir m) \<notin> set seen"
      by (simp add: mig_key_def)
    from Cons.prems Some fresh' obtain b where b: "ent_data f = Some b"
      by (cases "ent_data f") auto
    let ?m = "m\<lparr>SQL := TrimSpace b, Checksum := checksum (TrimSpace b)\<rparr>"
    from Cons.prems Some fresh' b
    have "collect checksum fs (mig_key m # seen) (ms @ [?m]) = (None, ms')"
      by (simp add: Let_def mig_key_def)
    from Cons.IH [OF this]
    have "map mig_key ms' = map mig_key (ms @ [?m]) @ file_keys fs"
      and "distinct (file_keys fs)"
      and "set (file_keys fs) \<inter> set (mig_key m # seen) = {}"
      by simp_all
    with Some fresh show ?thesis
      by auto
  qed
qed

lemma loadMigrations_registry_ok:
  assumes reg: "registry_ok r" and ld: "loadMigrations checksum r w = (None, r1)"
  shows "registry_ok r1" and "loaded r1"
proof -
  show l: "loaded r1"
    using ld
    by (auto simp: loadMigrations_def split: if_splits sum.splits prod.splits option.splits)
  show "registry_ok r1"
  proof (cases "loaded r")
    case True
    with ld have "r1 = r" by (simp add: loadMigrations_def)
    with reg show ?thesis by simp
  next
    case False
    with reg have e: "migrations r = []"
      by (simp add: registry_ok_def)
    from ld False obtain files ms where
      c: "collect checksum files [] (migrations r) = (None, ms)"
      and r1: "r1 = r\<lparr>migrations := sort_Slice mig_less ms, loaded := True\<rparr>"
      by (auto simp: loadMigrations_def split: if_splits sum.splits prod.splits option.splits)
    from collect_ok [OF c] e have "distinct (map mig_key ms)"
      by simp
    then show ?thesis
      by (simp add: registry_ok_def r1)
  qed
qed

lemma loadMigrations_loaded:
  "loaded r \<Longrightarrow> loadMigrations checksum r w = (None, r)"
  by (simp add: loadMigrations_def)

lemma distinct_up_versions:
  assumes "distinct (map mig_key ms)"
  shows "distinct (map Version (filter (\<lambda>m. Dir m = ''up'' \<and> P m) ms))"
proof -
  let ?ups = "filter (\<lambda>m. Dir m = ''up'' \<and> P m) ms"
  from assms have "distinct (map mig_key ?ups)"
    by (rule distinct_map_filter)
  then have dx: "distinct ?ups" and inj: "inj_on mig_key (set ?ups)"
    by (simp_all add: distinct_map)
  have "inj_on Version (set ?ups)"
  proof (rule inj_onI)
    fix m n assume m: "m \<in> set ?ups" and n: "n \<in> set ?ups" and v: "Version m = Version n"
    then have "mig_key m = mig_key n"
      by (simp add: mig_key_def)
    with inj m n show "m = n"
      by (auto dest: inj_onD)
  qed
  with dx show ?thesis
    by (simp add: distinct_map)
qed

subsection \<open>The rows after a successful batch\<close>

lemma map_rowVersion_upsert:
  "map rowVersion (upsert a rows) =
     (if rowVersion a \<in> set (map rowVersion rows) then map rowVersion rows
      else map rowVersion rows @ [rowVersion a])"
proof -
  have "map (\<lambda>b. rowVersion (if rowVersion b = rowVersion a then a else b)) rows
        = map rowVersion rows"
    by (rule map_cong) auto
  then show ?thesis
    by (simp add: upsert_def comp_def)
qed

lemma distinct_upsert:
  "distinct (map rowVersion rows) \<Longrightarrow> distinct (map rowVersion (upsert a rows))"
  by (simp add: map_rowVersion_upsert)

lemma upsert_holds: "a \<in> set (upsert a rows)"
  by (auto simp: upsert_def)

lemma upsert_keeps:
  "b \<in> set rows \<Longrightarrow> rowVersion b \<noteq> rowVersion a \<Longrightarrow> b \<in> set (upsert a rows)"
  by (auto simp: upsert_def)

lemma applyOne_None_rows:
  assumes "fst (applyOne r m w) = None"
  shows "\<exists>a. rowVersion a = Version m \<and> rowChecksum a = Checksum m \<and> rowSuccess a \<and>
           rows_of (snd (applyOne r m w)) (TableName (Opts r)) =
             upsert a (rows_of w (TableName (Opts r)))"
proof -
  let ?a = "\<lparr>rowVersion = Version m, rowName = Name m, rowChecksum = Checksum m,
             rowAppliedAt = now w (Suc (Suc (Suc (calls w)))),
             rowExecMS = elapsed w (Suc (calls w)), rowSuccess = True\<rparr>"
  from applyOne_steps [of r m w] assms
  have "rows_of (snd (applyOne r m w)) (TableName (Opts r)) =
      upsert ?a (rows_of w (TableName (Opts r)))"
    by (simp add: Let_def split: if_splits)
  then show ?thesis
    by (intro exI [of _ ?a]) simp
qed

lemma applyAll_None_rows:
  assumes "fst (applyAll r ms w) = None"
    and "distinct (map rowVersion (rows_of w (TableName (Opts r))))"
    and "distinct (map Version ms)"
  shows "distinct (map rowVersion (rows_of (snd (applyAll r ms w)) (TableName (Opts r)))) \<and>
         (\<forall>m\<in>set ms. has_record (rows_of (snd (applyAll r ms w)) (TableName (Opts r))) m) \<and>
         (\<forall>b\<in>set (rows_of w (TableName (Opts r))). rowVersion b \<notin> Version ` set ms \<longrightarrow>
            b \<in> set (rows_of (snd (applyAll r ms w)) (TableName (Opts r))))"
  using assms
proof (induction ms arbitrary: w)
  case Nil
  then show ?case by simp
next
  case (Cons m ms)
  let ?tn = "TableName (Opts r)"
  let ?w1 = "snd (applyOne r m w)"
  let ?w2 = "snd (applyAll r ms ?w1)"
  from Cons.prems(1) have one: "fst (applyOne r m w) = None"
    by (simp add: split_beta split: option.splits)
  with Cons.prems(1) have rest: "fst (applyAll r ms ?w1) = None"
    and eq: "applyAll r (m # ms) w = applyAll r ms ?w1"
    by (simp_all add: split_beta)
  from applyOne_None_rows [OF one] obtain a where
    a: "rowVersion a = Version m" "rowChecksum a = Checksum m" "rowSuccess a"
    and r1: "rows_of ?w1 ?tn = upsert a (rows_of w ?tn)"
    by blast
  have d1: "distinct (map rowVersion (rows_of ?w1 ?tn))"
    using Cons.prems(2) by (simp add: r1 distinct_upsert)
  from Cons.prems(3) have dm: "distinct (map Version ms)" and nm: "Version m \<notin> Version ` set ms"
    by simp_all
  from Cons.IH [OF rest d1 dm]
  have IH1: "distinct (map rowVersion (rows_of ?w2 ?tn))"
    and IH2: "\<forall>m\<in>set ms. has_record (rows_of ?w2 ?tn) m"
    and IH3: "\<forall>b\<in>set (rows_of ?w1 ?tn). rowVersion b \<notin> Version ` set ms \<longrightarrow>
                b \<in> set (rows_of ?w2 ?tn)"
    by blast+
  have "a \<in> set (rows_of ?w1 ?tn)"
    by (simp add: r1 upsert_holds)
  with IH3 nm a(1) have "a \<in> set (rows_of ?w2 ?tn)"
    by simp
  with a have hm: "has_record (rows_of ?w2 ?tn) m"
    by (auto simp: has_record_def)
  have keep: "\<forall>b\<in>set (rows_of w ?tn). rowVersion b \<notin> Version ` set (m # ms) \<longrightarrow>
                b \<in> set (rows_of ?w2 ?tn)"
  proof (intro ballI impI)
    fix b assume b: "b \<in> set (rows_of w ?tn)" "rowVersion b \<notin> Version ` set (m # ms)"
    then have "b \<in> set (rows_of ?w1 ?tn)"
      by (simp add: r1 upsert_keeps a(1))
    with IH3 b(2) show "b \<in> set (rows_of ?w2 ?tn)"
      by simp
  qed
  from IH1 IH2 hm keep show ?case
    unfolding eq by simp
qed

subsection \<open>The pending loop without drift\<close>

lemma pendingLoop_Inr:
  "pendingLoop s ms acc = Inr pending \<Longrightarrow>
   pending = acc @ filter (\<lambda>m. Dir m = ''up'' \<and> s (Version m) = None) ms \<and>
   (\<forall>m\<in>set ms. Dir m = ''up'' \<longrightarrow> (\<forall>a. s (Version m) = Some a \<longrightarrow> rowChecksum a = Checksum m))"
proof (induction ms arbitrary: acc)
  case Nil
  then show ?case by simp
next
  case (Cons m ms)
  show ?case
  proof (cases "Dir m = ''up''")
    case False
    with Cons show ?thesis by simp
  next
    case True
    show ?thesis
    proof (cases "s (Version m)")
      case None
      with True Cons.prems have "pendingLoop s ms (acc @ [m]) = Inr pending"
        by simp
      from Cons.IH [OF this] True None show ?thesis
        by simp
    next
      case (Some a)
      with True Cons.prems have c: "rowChecksum a = Checksum m"
        and "pendingLoop s ms acc = Inr pending"
        by (simp_all split: if_splits)
      from Cons.IH [OF this(2)] True Some c show ?thesis
        by simp
    qed
  qed
qed

lemma pendingLoop_none_pending:
  "\<forall>m\<in>set ms. Dir m = ''up'' \<longrightarrow> (\<exists>a. s (Version m) = Some a \<and> rowChecksum a = Checksum m) \<Longrightarrow>
   pendingLoop s ms acc = Inr acc"
  by (induction ms arbitrary: acc) auto


subsection \<open>Which errors are returned, continued\<close>





subsection \<open>A script that fails\<close>

text \<open>
  Claim C4, amended. Let the lock, the table creation, the load and the query succeed, let
  the pending scripts be \<open>pre @ m # post\<close> in the order of \<open>pendingUp\<close>, let the scripts of
  \<open>pre\<close> be applied without error, leaving the world \<open>w3\<close>, and let the transaction of \<open>m\<close>
  begin and the execution of its SQL fail. Then the transaction is rolled back and the
  upsert of a \<open>success = false\<close> record with the measured time is issued. The record is in
  the table when that write succeeds; when it fails too, the table is as the earlier
  scripts left it. In both cases \<open>Up\<close> returns the execution error at once: the calls after
  the failure are the rollback, the upsert and the unlock, so no script of \<open>post\<close> is
  executed or recorded, and no script is added to the executed ones.
\<close>

theorem Up_fails_fast:
  assumes ok: "\<not> fails w (calls w)" "\<not> fails w (Suc (calls w))"
              "\<not> fails w (Suc (Suc (calls w)))"
    and ld: "loadMigrations checksum r w = (None, r1)"
    and pend: "pendingUp r1 (sort_Slice row_less (rows_of w (TableName (Opts r))))
                 = Inr (pre @ m # post)"
    and pre: "applyAll r1 pre (prelude r w) = (None, w3)"
    and beg: "\<not> fails w (calls w3)"
    and exe: "fails w (Suc (calls w3))"
  shows "fst (Up checksum r w) =
           Returned (Some (MigrationFailed (Version m) (DbError (Suc (calls w3))))) \<and>
         rows_of (snd (snd (Up checksum r w))) (TableName (Opts r)) =
           (if fails w (Suc (Suc (Suc (calls w3)))) then rows_of w3 (TableName (Opts r))
            else upsert \<lparr>rowVersion = Version m, rowName = Name m, rowChecksum = Checksum m,
                          rowAppliedAt = now w (Suc (Suc (Suc (calls w3)))),
                          rowExecMS = elapsed w (Suc (calls w3)), rowSuccess = False\<rparr>
                   (rows_of w3 (TableName (Opts r)))) \<and>
         schema (snd (snd (Up checksum r w))) = schema w3 \<and>
         trace (snd (snd (Up checksum r w))) =
           trace w3 @
             [(BeginTx, True), (TxExec (SQL m), False),
              (TxRollback, \<not> fails w (Suc (Suc (calls w3)))),
              (Upsert (TableName (Opts r)) (Version m) (Name m) (Checksum m)
                 (elapsed w (Suc (calls w3))) False,
               \<not> fails w (Suc (Suc (Suc (calls w3))))),
              (AdvisoryUnlock (LockKey (Opts r)),
                 \<not> fails w (Suc (Suc (Suc (Suc (calls w3))))))]"
proof -
  let ?tn = "TableName (Opts r)"
  have o: "Opts r1 = Opts r"
    using ld by (rule loadMigrations_result_Opts)
  have w3: "w3 = snd (applyAll r1 pre (prelude r w))"
    using pre by simp
  have f3: "fails w3 = fails w" "now w3 = now w" "elapsed w3 = elapsed w"
    using ok by (simp_all add: w3 prelude_fields)
  have "tables (prelude r w) (TableName (Opts r1)) \<noteq> None"
    using prelude_fields(8) [OF ok(1,2), of r] unfolding o .
  then have "tables w3 (TableName (Opts r1)) \<noteq> None"
    unfolding w3 by simp
  then have t3: "tables w3 ?tn \<noteq> None"
    unfolding o .
  have all: "applyAll r1 (pre @ m # post) (prelude r w) =
      (case applyOne r1 m w3 of (Some e, w4) \<Rightarrow> (Some e, w4)
       | (None, w4) \<Rightarrow> applyAll r1 post w4)"
    by (simp add: applyAll_append pre)
  from applyOne_steps [of r1 m w3] beg exe t3
  have one: "fst (applyOne r1 m w3) = Some (MigrationFailed (Version m) (DbError (Suc (calls w3))))"
    and tr: "trace (snd (applyOne r1 m w3)) =
        trace w3 @ [(BeginTx, True), (TxExec (SQL m), False),
              (TxRollback, \<not> fails w (Suc (Suc (calls w3)))),
              (Upsert ?tn (Version m) (Name m) (Checksum m)
                 (elapsed w (Suc (calls w3))) False,
               \<not> fails w (Suc (Suc (Suc (calls w3)))))]"
    and rw: "rows_of (snd (applyOne r1 m w3)) ?tn =
        (if fails w (Suc (Suc (Suc (calls w3)))) then rows_of w3 ?tn
         else upsert \<lparr>rowVersion = Version m, rowName = Name m, rowChecksum = Checksum m,
                   rowAppliedAt = now w (Suc (Suc (Suc (calls w3)))),
                   rowExecMS = elapsed w (Suc (calls w3)), rowSuccess = False\<rparr>
             (rows_of w3 ?tn))"
    and sc: "schema (snd (applyOne r1 m w3)) = schema w3"
    by (simp_all add: Let_def o f3)
  have cl: "calls (snd (applyOne r1 m w3)) = Suc (Suc (Suc (Suc (calls w3))))"
    using beg exe by (simp add: applyOne_def Let_def split_beta f3)
  have A: "applyAll r1 (pre @ m # post) (prelude r w) =
      (Some (MigrationFailed (Version m) (DbError (Suc (calls w3)))), snd (applyOne r1 m w3))"
    using one by (simp add: all split_beta)
  have U: "Up checksum r w =
      (Returned (Some (MigrationFailed (Version m) (DbError (Suc (calls w3))))), r1,
       unlocked r (snd (applyOne r1 m w3)))"
    by (simp add: Up_after_prelude [OF ok ld] pend A)
  show ?thesis
    by (simp add: U tr rw sc cl f3)
qed

theorem Up_fails_fast_witness:
  "fst (Up ex_checksum (New ex_opts) ex_second_fails_world) =
     Returned (Some (MigrationFailed 20240102 (DbError 8))) \<and>
   map (\<lambda>a. (rowVersion a, rowExecMS a, rowSuccess a))
     (rows_of (snd (snd (Up ex_checksum (New ex_opts) ex_second_fails_world)))
        ''schema_migrations'')
     = [(20240101, 7, True), (20240102, 7, False)] \<and>
   schema (snd (snd (Up ex_checksum (New ex_opts) ex_second_fails_world)))
     = [''CREATE TABLE a();'']"
proof -
  let ?w = ex_second_fails_world
  let ?r = "New ex_opts"
  let ?r1 = "snd (loadMigrations ex_checksum ?r ?w)"
  let ?m1 = "\<lparr>Version = 20240101, Name = ''init'', Dir = ''up'',
              File = ''20240101_init.up.sql'', SQL = ''CREATE TABLE a();'',
              Checksum = ''CREATE TABLE a();''\<rparr>"
  let ?m2 = "\<lparr>Version = 20240102, Name = ''more'', Dir = ''up'',
              File = ''20240102_more.up.sql'', SQL = ''CREATE TABLE b();'',
              Checksum = ''CREATE TABLE b();''\<rparr>"
  let ?m3 = "\<lparr>Version = 20240103, Name = ''last'', Dir = ''up'',
              File = ''20240103_last.up.sql'', SQL = ''CREATE TABLE c();'',
              Checksum = ''CREATE TABLE c();''\<rparr>"
  let ?w3 = "snd (applyAll ?r1 [?m1] (prelude ?r ?w))"
  have ok: "\<not> fails ?w (calls ?w)" "\<not> fails ?w (Suc (calls ?w))"
    "\<not> fails ?w (Suc (Suc (calls ?w)))"
    by code_simp+
  have "fst (loadMigrations ex_checksum ?r ?w) = None"
    by code_simp
  then have ld: "loadMigrations ex_checksum ?r ?w = (None, ?r1)"
    by (simp add: prod_eq_iff)
  have pend: "pendingUp ?r1 (sort_Slice row_less (rows_of ?w (TableName (Opts ?r))))
      = Inr ([?m1] @ ?m2 # [?m3])"
    by code_simp
  have "fst (applyAll ?r1 [?m1] (prelude ?r ?w)) = None"
    by code_simp
  then have pre: "applyAll ?r1 [?m1] (prelude ?r ?w) = (None, ?w3)"
    by (simp add: prod_eq_iff)
  have c3: "calls ?w3 = 7"
    by code_simp
  have beg: "\<not> fails ?w (calls ?w3)"
    and exe: "fails ?w (Suc (calls ?w3))"
    by code_simp+
  from Up_fails_fast [OF ok ld pend pre beg exe]
  have 1: "fst (Up ex_checksum ?r ?w) = Returned (Some (MigrationFailed 20240102 (DbError 8)))"
    unfolding c3 by simp
  have 2: "map (\<lambda>a. (rowVersion a, rowExecMS a, rowSuccess a))
     (rows_of (snd (snd (Up ex_checksum ?r ?w))) ''schema_migrations'')
     = [(20240101, 7, True), (20240102, 7, False)]"
    by code_simp
  have 3: "schema (snd (snd (Up ex_checksum ?r ?w))) = [''CREATE TABLE a();'']"
    by code_simp
  from 1 2 3 show ?thesis by simp
qed

text \<open>
  Claim C4 as stated fails: the execution of the second of three pending scripts fails
  (call 8) and the write of its failure record fails too (call 10). \<open>Up\<close> returns the
  execution error, and the table holds the row of the first script only: no
  \<open>success = false\<close> record is stored for version 20240102.
\<close>

theorem Up_failure_record_persisted_counterexample:
  "fst (Up ex_checksum (New ex_opts) ex_second_unrecorded_world)
     = Returned (Some (MigrationFailed 20240102 (DbError 8))) \<and>
   map (\<lambda>a. (rowVersion a, rowSuccess a))
     (rows_of (snd (snd (Up ex_checksum (New ex_opts) ex_second_unrecorded_world)))
        ''schema_migrations'')
     = [(20240101, True)] \<and>
   drop 7 (trace (snd (snd (Up ex_checksum (New ex_opts) ex_second_unrecorded_world))))
     = [(BeginTx, True), (TxExec ''CREATE TABLE b();'', False), (TxRollback, True),
        (Upsert ''schema_migrations'' 20240102 ''more'' ''CREATE TABLE b();'' 7 False, False),
        (AdvisoryUnlock 913551337114213777, True)]"
  by code_simp

subsection \<open>Up twice\<close>

text \<open>
  A second \<open>Up\<close> finds nothing pending when the registry of the runner holds one migration
  for a version and direction. Let \<open>Up\<close> return nil on a runner whose registry is as \<open>New\<close>
  or a successful load from the empty registry leaves it, over a tracking table with one row
  for a version, and let it leave the runner \<open>r'\<close> and the world \<open>w'\<close>. Let \<open>Up\<close> be called
  again, on the runner it left or on one equal to the first, and let the lock, the table
  creation and the query of this second call succeed. Then the pending set of the second
  call is empty and it returns nil; the rows and the executed scripts are those the first
  call left, and the only database calls are lock, create table, select and unlock.
\<close>

lemma Up_twice_unique_registry:
  assumes reg: "registry_ok r"
    and pk: "distinct (map rowVersion (rows_of w (TableName (Opts r))))"
    and first: "Up checksum r w = (Returned None, r', w')"
    and again: "r2 = r \<or> r2 = r'"
    and ok': "\<not> fails w' (calls w')" "\<not> fails w' (Suc (calls w'))"
             "\<not> fails w' (Suc (Suc (calls w')))"
  shows "pendingUp r' (sort_Slice row_less (rows_of w' (TableName (Opts r)))) = Inr [] \<and>
         fst (Up checksum r2 w') = Returned None \<and>
         rows_of (snd (snd (Up checksum r2 w'))) (TableName (Opts r))
           = rows_of w' (TableName (Opts r)) \<and>
         schema (snd (snd (Up checksum r2 w'))) = schema w' \<and>
         trace (snd (snd (Up checksum r2 w'))) =
           trace w' @ [(AdvisoryLock (LockKey (Opts r)), True),
                       (CreateTable (TableName (Opts r)), True),
                       (SelectRows (TableName (Opts r)), True),
                       (AdvisoryUnlock (LockKey (Opts r)),
                          \<not> fails w' (Suc (Suc (Suc (calls w')))))]"
proof -
  let ?tn = "TableName (Opts r)"
  let ?rows = "rows_of w ?tn"
  let ?r1 = "snd (loadMigrations checksum r w)"
  let ?s = "appliedSet (sort_Slice row_less ?rows)"
  have nil: "fst (Up checksum r w) = Returned None"
    using first by simp
  note ok = Up_returns_nil_prelude(1-3) [OF nil]
  have ld: "loadMigrations checksum r w = (None, ?r1)"
    using Up_returns_nil_prelude(4) [OF nil] by (simp add: prod_eq_iff)
  have o: "Opts ?r1 = Opts r"
    by simp
  note U = Up_after_prelude [OF ok ld]
  note regs = loadMigrations_registry_ok [OF reg ld]
  have S: "\<And>v a. (?s v = Some a) = (a \<in> set ?rows \<and> rowSuccess a \<and> rowVersion a = v)"
    using pk by (simp add: appliedSet_Some)
  obtain pending where P: "pendingUp ?r1 (sort_Slice row_less ?rows) = Inr pending"
    using nil U by (cases "pendingUp ?r1 (sort_Slice row_less ?rows)") simp_all
  then obtain p0 where p0: "pendingLoop ?s (migrations ?r1) [] = Inr p0"
    and pend: "pending = sort_Slice (\<lambda>m n. Version m < Version n) p0"
    by (auto simp: pendingUp_def split: sum.splits)
  from pendingLoop_Inr [OF p0]
  have p0eq: "p0 = filter (\<lambda>m. Dir m = ''up'' \<and> ?s (Version m) = None) (migrations ?r1)"
    and nodrift: "\<forall>m\<in>set (migrations ?r1). Dir m = ''up'' \<longrightarrow>
        (\<forall>a. ?s (Version m) = Some a \<longrightarrow> rowChecksum a = Checksum m)"
    by simp_all
  define W where
    "W = (if pending = [] then prelude r w else snd (applyAll ?r1 pending (prelude r w)))"
  have "snd (Up checksum r w) = (?r1, unlocked r W)"
    using P by (simp add: U W_def)
  with first have r': "r' = ?r1" and w': "w' = unlocked r W"
    by simp_all
  have applied: "fst (applyAll ?r1 pending (prelude r w)) = None" if "pending \<noteq> []"
    using that nil by (simp add: U P)
  have dW: "disk W = disk w"
    using ok by (simp add: W_def prelude_fields)
  have key: "distinct (map rowVersion (rows_of W ?tn)) \<and>
      (\<forall>m\<in>set (migrations ?r1). Dir m = ''up'' \<longrightarrow> has_record (rows_of W ?tn) m)"
  proof (cases "pending = []")
    case True
    then have W: "rows_of W ?tn = ?rows"
      using ok by (simp add: W_def prelude_fields)
    from True pend have "set p0 = {}"
      by (metis set_sort_Slice set_empty)
    then have e: "p0 = []" by simp
    have "has_record ?rows m" if m: "m \<in> set (migrations ?r1)" "Dir m = ''up''" for m
    proof -
      from e p0eq m have "?s (Version m) \<noteq> None"
        by (auto simp: filter_empty_conv)
      then obtain a where a: "?s (Version m) = Some a"
        by auto
      with nodrift m have "rowChecksum a = Checksum m"
        by blast
      with a show ?thesis
        by (auto simp: S has_record_def)
    qed
    with pk W show ?thesis by simp
  next
    case False
    let ?W = "snd (applyAll ?r1 pending (prelude r w))"
    from False have W: "W = ?W"
      by (simp add: W_def)
    have pr: "rows_of (prelude r w) (TableName (Opts ?r1)) = ?rows"
      using ok by (simp add: prelude_fields)
    from regs have "distinct (map mig_key (migrations ?r1))"
      by (simp add: registry_ok_def)
    then have "distinct (map Version p0)"
      unfolding p0eq by (rule distinct_up_versions)
    then have dv: "distinct (map Version pending)"
      by (simp add: pend)
    have pk1: "distinct (map rowVersion (rows_of (prelude r w) (TableName (Opts ?r1))))"
      using pk by (simp only: pr)
    from applyAll_None_rows [OF applied [OF False] pk1 dv]
    have A1: "distinct (map rowVersion (rows_of ?W (TableName (Opts ?r1))))"
      and A2: "\<forall>m\<in>set pending. has_record (rows_of ?W (TableName (Opts ?r1))) m"
      and A3: "\<forall>b\<in>set (rows_of (prelude r w) (TableName (Opts ?r1))).
                 rowVersion b \<notin> Version ` set pending \<longrightarrow>
                 b \<in> set (rows_of ?W (TableName (Opts ?r1)))"
      by blast+
    have sp: "set pending = set p0"
      by (simp add: pend)
    have "has_record (rows_of ?W ?tn) m" if m: "m \<in> set (migrations ?r1)" "Dir m = ''up''" for m
    proof (cases "?s (Version m)")
      case None
      with m have "m \<in> set pending"
        by (simp add: sp p0eq)
      with A2 show ?thesis
        by (simp only: o)
    next
      case (Some a)
      with nodrift m have c: "rowChecksum a = Checksum m"
        by blast
      from Some have a: "a \<in> set ?rows" "rowSuccess a" "rowVersion a = Version m"
        by (simp_all add: S)
      have "Version m \<notin> Version ` set pending"
      proof
        assume "Version m \<in> Version ` set pending"
        then obtain p where "p \<in> set p0" "Version p = Version m"
          by (auto simp: sp)
        then have "?s (Version m) = None"
          by (simp add: p0eq)
        with Some show False by simp
      qed
      with A3 a(1,3) have "a \<in> set (rows_of ?W (TableName (Opts ?r1)))"
        by (simp only: pr) simp
      then have "a \<in> set (rows_of ?W ?tn)"
        by (simp only: o)
      with a c show ?thesis
        by (auto simp: has_record_def)
    qed
    moreover from A1 have "distinct (map rowVersion (rows_of ?W ?tn))"
      by (simp only: o)
    ultimately show ?thesis
      by (simp add: W)
  qed
  have rows': "rows_of w' ?tn = rows_of W ?tn"
    by (simp add: w')
  let ?s' = "appliedSet (sort_Slice row_less (rows_of w' ?tn))"
  have S': "\<And>v a. (?s' v = Some a) =
      (a \<in> set (rows_of w' ?tn) \<and> rowSuccess a \<and> rowVersion a = v)"
    using key by (simp add: appliedSet_Some rows')
  have "\<forall>m\<in>set (migrations ?r1). Dir m = ''up'' \<longrightarrow>
      (\<exists>a. ?s' (Version m) = Some a \<and> rowChecksum a = Checksum m)"
  proof (intro ballI impI)
    fix m assume "m \<in> set (migrations ?r1)" "Dir m = ''up''"
    with key obtain a where a: "a \<in> set (rows_of W ?tn)" "rowVersion a = Version m"
      "rowSuccess a" "rowChecksum a = Checksum m"
      by (auto simp: has_record_def)
    then have "a \<in> set (rows_of w' ?tn) \<and> rowSuccess a \<and> rowVersion a = Version m"
      by (simp add: rows')
    then have "?s' (Version m) = Some a"
      by (simp only: S')
    with a(4) show "\<exists>a. ?s' (Version m) = Some a \<and> rowChecksum a = Checksum m"
      by blast
  qed
  then have "pendingLoop ?s' (migrations ?r1) [] = Inr []"
    by (rule pendingLoop_none_pending)
  then have P2: "pendingUp ?r1 (sort_Slice row_less (rows_of w' ?tn)) = Inr []"
    by (simp add: pendingUp_def sort_Slice_def)
  have ld2: "loadMigrations checksum r2 w' = (None, ?r1)"
  proof (cases "r2 = r")
    case True
    have "disk w' = disk w"
      by (simp add: w' dW)
    then show ?thesis
      using ld True by (simp add: loadMigrations_disk [of w' w])
  next
    case False
    with again r' have "r2 = ?r1" by simp
    with regs(2) show ?thesis
      by (simp add: loadMigrations_loaded)
  qed
  have o2: "Opts r2 = Opts r"
    using again r' by auto
  from Up_after_prelude [OF ok' ld2] P2
  have U2: "Up checksum r2 w' = (Returned None, ?r1, unlocked r2 (prelude r2 w'))"
    by (simp add: o2)
  have f: "fails (prelude r2 w') = fails w'" "calls (prelude r2 w') = Suc (Suc (Suc (calls w')))"
    "schema (prelude r2 w') = schema w'"
    "rows_of (prelude r2 w') ?tn = rows_of w' ?tn"
    "trace (prelude r2 w') =
           trace w' @ [(AdvisoryLock (LockKey (Opts r2)), True),
                      (CreateTable (TableName (Opts r2)), True),
                      (SelectRows (TableName (Opts r2)), \<not> fails w' (Suc (Suc (calls w'))))]"
    using prelude_fields [OF ok'(1,2), of r2] by simp_all
  show ?thesis
    using ok' by (simp add: U2 P2 r' f o2)
qed

text \<open>
  Claim C7. The code does not keep the registry in that state. A load that fails leaves
  the migrations it had collected in the runner and does not mark it loaded; the next load
  of the same runner starts its duplicate check anew and appends every file again. In the
  example the first \<open>Up\<close> failed with the duplicate error, the duplicate was removed and the
  script of version 20240101 was edited. The next \<open>Up\<close> of the same runner holds both
  contents of that script, applies both and returns nil. The \<open>Up\<close> after it, on the runner
  and the world that this successful call left, does not find an empty pending set and
  return nil: it panics with a checksum mismatch.
\<close>

theorem Up_twice_stale_registry:
  "map mig_key (migrations ex_retry_runner) = [(20240101, ''up'')] \<and>
   loaded ex_retry_runner = False \<and>
   fst (Up ex_checksum ex_retry_runner ex_retry_world) = Returned None \<and>
   map (\<lambda>m. (mig_key m, Checksum m))
     (migrations (fst (snd (Up ex_checksum ex_retry_runner ex_retry_world))))
     = [((20240101, ''up''), ''CREATE TABLE IF NOT EXISTS a();''),
        ((20240101, ''up''), ''CREATE TABLE IF NOT EXISTS a(id int);'')] \<and>
   list_all snd (trace (snd (snd (Up ex_checksum ex_retry_runner ex_retry_world)))) \<and>
   fst (Up ex_checksum (fst (snd (Up ex_checksum ex_retry_runner ex_retry_world)))
          (snd (snd (Up ex_checksum ex_retry_runner ex_retry_world))))
     = Panicked (ChecksumMismatch 20240101 ''CREATE TABLE IF NOT EXISTS a(id int);''
                   ''CREATE TABLE IF NOT EXISTS a();'')"
  by code_simp

end
